theory Spec2Isabelle
  imports Main "HOL-Library.Word"
begin

section \<open>Go values shared by the tunnel client\<close>

text \<open>
  The client of \<^verbatim>\<open>pkg/pillar/zedcloud/wstunnelclient.go\<close> talks to three things it does
  not own: the remote WebSocket endpoint, the local relay's TCP socket and the TLS
  configuration. Their answers are inputs of the model. Everything the Go code itself
  does (its checks, its branches, its assignments, the order of its calls) is a
  definition below. Each goroutine is modelled as a function of its own on the state it
  shares with the others; where one goroutine waits for another (the send on
  \<^verbatim>\<open>requestSentChan\<close>, which the response pumps receive), the passes of the other are
  placed among its steps by the environment. Timers, deadlines, log output and the two
  mutexes change none of the values computed and are left out.

  A Go \<^verbatim>\<open>error\<close> is a value of \<open>error option\<close>: \<open>None\<close> is \<^verbatim>\<open>nil\<close>. The three
  sentinel values of package \<^verbatim>\<open>io\<close> that the code compares against are constructors of
  their own; any other error of the network stack is \<open>OpError\<close>.
\<close>

datatype error =
    Errorf string
  | EOF
  | ErrClosedPipe
  | ErrUnexpectedEOF
  | ErrBadHandshake
  | ErrReadLimit
  | ScanError string
  | OpError string

text \<open>
  How a call ends. \<open>Returns v\<close> is the normal return; \<open>Panics\<close> is a run-time panic (a
  nil dereference); \<open>Exits\<close> is \<^verbatim>\<open>log.Fatal\<close>, which ends the process; \<open>Blocks\<close> is a
  channel send that finds the buffer full (or the channel nil) and waits: the call has
  not returned.
\<close>

datatype 'a exec = Returns 'a | Panics | Exits | Blocks

subsection \<open>Package strings\<close>

definition HasPrefix :: "string \<Rightarrow> string \<Rightarrow> bool" where
  "HasPrefix s p = (length s \<ge> length p \<and> take (length p) s = p)"

definition HasSuffix :: "string \<Rightarrow> string \<Rightarrow> bool" where
  "HasSuffix s p = (length s \<ge> length p \<and> drop (length s - length p) s = p)"

definition TrimSuffix :: "string \<Rightarrow> string \<Rightarrow> string" where
  "TrimSuffix s p = (if HasSuffix s p then take (length s - length p) s else s)"

subsection \<open>Channels of capacity n\<close>

text \<open>
  \<^verbatim>\<open>chan struct{}\<close>: only the number of buffered tokens matters. \<open>NilChan\<close> is the zero
  value of the field before \<^verbatim>\<open>startSession\<close> makes the channel.
\<close>

datatype chan = NilChan | Chan nat nat

definition make_chan :: "nat \<Rightarrow> chan" where
  "make_chan capacity = Chan capacity 0"

fun buffered :: "chan \<Rightarrow> nat" where
  "buffered NilChan = 0"
| "buffered (Chan capacity n) = n"

text \<open>\<^verbatim>\<open>c <- struct{}{}\<close>: \<open>None\<close> when the send cannot proceed.\<close>

fun send :: "chan \<Rightarrow> chan option" where
  "send NilChan = None"
| "send (Chan capacity n) = (if n < capacity then Some (Chan capacity (Suc n)) else None)"

text \<open>\<^verbatim>\<open>select { case <-c: ... default: }\<close>: whether a token was received, and the channel after.\<close>

fun try_recv :: "chan \<Rightarrow> bool \<times> chan" where
  "try_recv NilChan = (False, NilChan)"
| "try_recv (Chan capacity 0) = (False, Chan capacity 0)"
| "try_recv (Chan capacity (Suc n)) = (True, Chan capacity n)"

subsection \<open>The remote side: HTTP responses, WebSocket connections, dial results\<close>

record http_Response =
  StatusCode :: int
  Status :: string
  Body :: string

text \<open>
  An \<^verbatim>\<open>io.Reader\<close> over one WebSocket message: the bytes it will deliver, then either
  end of message (\<open>None\<close>) or a read error.
\<close>

record reader =
  rdata :: string
  rerr :: "error option"

text \<open>What one call of \<^verbatim>\<open>ws.NextReader()\<close> finds on the wire.\<close>

datatype ws_read = ReadFails error | Message int reader

definition TextMessage :: int where "TextMessage = 1"
definition BinaryMessage :: int where "BinaryMessage = 2"

text \<open>
  A \<^verbatim>\<open>*websocket.Conn\<close>: its read limit (0 is no limit), what the peer sends (one entry
  per \<^verbatim>\<open>NextReader\<close> call; a connection with nothing left to deliver reports an error),
  the messages written so far and whether \<^verbatim>\<open>Close\<close> was called.
\<close>

record websocket_Conn =
  readLimit :: nat
  incoming :: "ws_read list"
  outgoing :: "string list"
  closed :: bool

datatype tls_Config = TlsConfig string

record websocket_Dialer =
  ReadBufferSize :: int
  WriteBufferSize :: int
  TLSClientConfig :: tls_Config
  NetDialLocalAddr :: string
  Proxy :: "string option"

text \<open>\<^verbatim>\<open>ws, resp, err := dialer.Dial(url, nil)\<close>\<close>

record dial_result =
  dws :: "websocket_Conn option"
  dresp :: "http_Response option"
  derr :: "error option"

subsection \<open>The local relay's TCP connection\<close>

text \<open>
  A \<^verbatim>\<open>net.Conn\<close> to the local relay. \<open>peerClosed\<close> records a fact of the world (the relay
  has closed its end); the Go code cannot read it, it only sees what \<^verbatim>\<open>Read\<close> and
  \<^verbatim>\<open>Write\<close> return.
\<close>

record net_Conn =
  fd :: nat
  peerClosed :: bool

section \<open>The data model of the source\<close>

record WSConnection =
  ws :: websocket_Conn
  localConnection :: "net_Conn option"

text \<open>
  \<^verbatim>\<open>WSConnection.tun\<close> always points back at the client that owns the connection, so a
  method of \<^verbatim>\<open>WSConnection\<close> is modelled on the pair of the connection and its client.
\<close>

record WSTunnelClient =
  TunnelServerName :: string
  Tunnel :: string
  DestURL :: string
  LocalRelayServer :: string
  Timeout :: int
  Connected :: bool
  Dialer :: "websocket_Dialer option"
  exitChan :: chan
  conn :: "WSConnection option"
  retryOnFailCount :: int
  requestSentChan :: chan

definition maxRetryAttempts :: int where
  "maxRetryAttempts = 50"

definition Second :: int where
  "Second = 1000000000"

definition InitializeTunnelClient :: "string \<Rightarrow> string \<Rightarrow> WSTunnelClient" where
  "InitializeTunnelClient serverName localRelay =
     \<lparr> TunnelServerName = serverName,
       Tunnel = ''wss://'' @ serverName,
       DestURL = '''',
       LocalRelayServer = localRelay,
       Timeout = 30 * Second,
       Connected = False,
       Dialer = None,
       exitChan = NilChan,
       conn = None,
       retryOnFailCount = 0,
       requestSentChan = NilChan \<rparr>"

section \<open>TestConnection\<close>

text \<open>
  \<open>tls\<close> is what \<^verbatim>\<open>GetTlsConfig(t.TunnelServerName, nil)\<close> returns and \<open>dial\<close> is what
  \<^verbatim>\<open>dialer.Dial\<close> answers for a dialer and a URL. The checks run in the order of the
  source; the local relay check is the conjunction the source writes.
\<close>

definition TestConnection ::
  "(string \<Rightarrow> error + tls_Config) \<Rightarrow> (websocket_Dialer \<Rightarrow> string \<Rightarrow> dial_result) \<Rightarrow>
   string option \<Rightarrow> string \<Rightarrow> WSTunnelClient \<Rightarrow> error option exec \<times> WSTunnelClient" where
  "TestConnection tls dial proxyURL localAddr t =
    (if Tunnel t = '''' then
       (Returns (Some (Errorf ''Must specify tunnel server ws://hostname:port'')), t)
     else if \<not> HasPrefix (Tunnel t) ''ws://'' \<and> \<not> HasPrefix (Tunnel t) ''wss://'' then
       (Returns (Some (Errorf ''Remote tunnel must begin with ws:// or wss://'')), t)
     else
      (let t1 = t\<lparr>Tunnel := TrimSuffix (Tunnel t) ''/''\<rparr> in
       if LocalRelayServer t1 = '''' then
         (Returns (Some (Errorf ''Must specify local relay server hostOrIP:port'')), t1)
       else if HasPrefix (LocalRelayServer t1) ''http://'' \<and>
               HasPrefix (LocalRelayServer t1) ''https://'' then
         (Returns (Some (Errorf ''Local server relay must not begin with http:// or https://'')), t1)
       else
        (let t2 = t1\<lparr>LocalRelayServer := TrimSuffix (LocalRelayServer t1) ''/''\<rparr> in
         (case tls (TunnelServerName t2) of
            Inl e \<Rightarrow> (Exits, t2)
          | Inr tlsConfig \<Rightarrow>
             (let dialer = \<lparr> ReadBufferSize = 100 * 1024,
                             WriteBufferSize = 100 * 1024,
                             TLSClientConfig = tlsConfig,
                             NetDialLocalAddr = localAddr,
                             Proxy = proxyURL \<rparr>;
                  pingURL = Tunnel t2 @ ''/api/v1/edgedevice/connection/ping'';
                  r = dial dialer pingURL
              in (case dresp r of
                    None \<Rightarrow> (Panics, t2)
                  | Some resp \<Rightarrow>
                     (if StatusCode resp = 200 then
                        (Returns None,
                         t2\<lparr>DestURL := Tunnel t2 @ ''/api/v1/edgedevice/connection/tunnel'',
                            Dialer := Some dialer\<rparr>)
                      else (Returns (derr r), t2))))))))"

section \<open>The environment of a running session\<close>

text \<open>
  The answers of the outside world, one per call: the \<open>k\<close>-th call of an operation gets
  the \<open>k\<close>-th answer. \<open>calls\<close> counts the calls made so far, so that an execution can
  be read back (how many dials, how many writes), and holds the goroutines that earlier
  sessions have left running.
  \<^item> \<open>TunnelDial k\<close>: what the \<open>k\<close>-th \<^verbatim>\<open>t.Dialer.Dial(t.DestURL, nil)\<close> returns;
  \<^item> \<open>NetDial k host\<close>: what the \<open>k\<close>-th \<^verbatim>\<open>net.Dial("tcp", host)\<close> returns;
  \<^item> \<open>ProbeRead k c\<close>: the error of the \<open>k\<close>-th zero-length \<^verbatim>\<open>c.Read\<close> under an
    immediate deadline;
  \<^item> \<open>ConnWrite k c req\<close>: the error of the \<open>k\<close>-th \<^verbatim>\<open>c.Write(req)\<close>;
  \<^item> \<open>ConnReadAll k c\<close>: the bytes the \<open>k\<close>-th \<^verbatim>\<open>ioutil.ReadAll(c)\<close> collects before
    its 500 ms deadline;
  \<^item> \<open>WsWrite k\<close>: the faults met by the \<open>k\<close>-th response written to the WebSocket;
  \<^item> \<open>Schedule k\<close>: the response pumps that make one pass of their loop, in this order,
    at the \<open>k\<close>-th point where the request pump lets them run;
  \<^item> \<open>Taker k\<close>: the response pump that receives the token when that point is a send
    on \<^verbatim>\<open>requestSentChan\<close> that has to wait.

  A response pump is a goroutine running \<^verbatim>\<open>processResponses\<close>: \<open>pump\<close> holds the two
  local variables of its loop. Its loop has no way out, so the pump of a session is
  still running when the session is over; \<open>olderPumps\<close> holds these, each with the
  connection object it was started on ("there may be goroutines handling older
  websockets", as the comment of \<^verbatim>\<open>WSTunnelClient\<close> says). In \<open>Schedule\<close> and \<open>Taker\<close> the
  number 0 is the pump of the running session and \<open>j + 1\<close> is the \<open>j\<close>-th older pump.
\<close>

record write_faults =
  nextWriterErr :: "error option"
  idErr :: "error option"
  copyErr :: "error option"
  closeErr :: "error option"

record environment =
  TunnelDial :: "nat \<Rightarrow> dial_result"
  NetDial :: "nat \<Rightarrow> string \<Rightarrow> error + net_Conn"
  ProbeRead :: "nat \<Rightarrow> net_Conn \<Rightarrow> error option"
  ConnWrite :: "nat \<Rightarrow> net_Conn \<Rightarrow> string \<Rightarrow> error option"
  ConnReadAll :: "nat \<Rightarrow> net_Conn \<Rightarrow> string"
  WsWrite :: "nat \<Rightarrow> write_faults"
  Schedule :: "nat \<Rightarrow> nat list"
  Taker :: "nat \<Rightarrow> nat"

record pump =
  pumpHost :: string
  pumpId :: "64 word"

record calls =
  tunnelDials :: nat
  dials :: nat
  probes :: nat
  writes :: nat
  drains :: nat
  responses :: nat
  yields :: nat
  olderPumps :: "(WSConnection \<times> pump) list"

definition no_calls :: calls where
  "no_calls = \<lparr> tunnelDials = 0, dials = 0, probes = 0, writes = 0, drains = 0, responses = 0,
                yields = 0, olderPumps = [] \<rparr>"

text \<open>
  One WebSocket session: the connection object, the client it points back to, the
  calls made so far, and the response pump of the session.
\<close>

record session =
  wsc :: WSConnection
  tun :: WSTunnelClient
  world :: calls
  responder :: pump

section \<open>Local relay connector\<close>

text \<open>
  \<^verbatim>\<open>dialLocalConnection\<close>: with an empty host the function logs and executes a bare
  \<^verbatim>\<open>return\<close>, so its named result \<^verbatim>\<open>err\<close> is still nil and no connection is stored.
\<close>

definition dialLocalConnection :: "environment \<Rightarrow> session \<Rightarrow> error option \<times> session" where
  "dialLocalConnection env s =
    (let host = LocalRelayServer (tun s) in
     if host = '''' then (None, s)
     else
      (let s1 = s\<lparr>world := (world s)\<lparr>dials := dials (world s) + 1\<rparr>\<rparr> in
       (case NetDial env (dials (world s)) host of
          Inl e \<Rightarrow> (Some e, s1)
        | Inr c \<Rightarrow> (None, s1\<lparr>wsc := (wsc s1)\<lparr>localConnection := Some c\<rparr>\<rparr>))))"

text \<open>
  \<^verbatim>\<open>refreshLocalConnection(host, forceCreate)\<close>. The probe reads into an empty slice;
  only the three \<^verbatim>\<open>io\<close> sentinels lead to a new dial, any other result of the read
  (no error, or another error) keeps the cached connection. The parameter \<open>host\<close> is
  not used by the body: the dial reads the host from the client again.
\<close>

definition refreshLocalConnection ::
  "environment \<Rightarrow> string \<Rightarrow> bool \<Rightarrow> session \<Rightarrow> error option \<times> session" where
  "refreshLocalConnection env host forceCreate s =
    (case localConnection (wsc s) of
       None \<Rightarrow> dialLocalConnection env s
     | Some c \<Rightarrow>
        (if forceCreate then dialLocalConnection env s
         else
          (let s1 = s\<lparr>world := (world s)\<lparr>probes := probes (world s) + 1\<rparr>\<rparr> in
           (case ProbeRead env (probes (world s)) c of
              None \<Rightarrow> (None, s1)
            | Some e \<Rightarrow>
               (if e = EOF \<or> e = ErrClosedPipe \<or> e = ErrUnexpectedEOF
                then dialLocalConnection env s1
                else (None, s1))))))"

text \<open>
  The results of the probe read that make \<^verbatim>\<open>refreshLocalConnection\<close> dial again: the
  three errors its test names.
\<close>

definition lostConnection :: "error option \<Rightarrow> bool" where
  "lostConnection p = (p = Some EOF \<or> p = Some ErrClosedPipe \<or> p = Some ErrUnexpectedEOF)"

text \<open>
  The write loop of \<^verbatim>\<open>processRequest\<close>: \<^verbatim>\<open>for tries := 1; tries <= 3; tries++\<close>.
  \<open>Returns None\<close> is leaving the loop (by \<^verbatim>\<open>break\<close> after a successful write, or
  because \<open>tries\<close> passed 3); \<open>Returns (Some e)\<close> is the \<^verbatim>\<open>return err\<close> inside the loop;
  calling \<^verbatim>\<open>Write\<close> on a nil \<^verbatim>\<open>localConnection\<close> panics.
\<close>

function writeLoop ::
  "environment \<Rightarrow> string \<Rightarrow> string \<Rightarrow> nat \<Rightarrow> session \<Rightarrow> error option exec \<times> session" where
  "writeLoop env req host tries s =
    (if tries \<le> 3 then
       (case localConnection (wsc s) of
          None \<Rightarrow> (Panics, s)
        | Some c \<Rightarrow>
           (let s1 = s\<lparr>world := (world s)\<lparr>writes := writes (world s) + 1\<rparr>\<rparr> in
            (case ConnWrite env (writes (world s)) c req of
               None \<Rightarrow> (Returns None, s1)
             | Some e \<Rightarrow>
                (case refreshLocalConnection env host True s1 of
                   (Some e', s2) \<Rightarrow> (Returns (Some e'), s2)
                 | (None, s2) \<Rightarrow> writeLoop env req host (tries + 1) s2))))
     else (Returns None, s))"
  by pat_completeness auto
termination
  by (relation "measure (\<lambda>(env, req, host, tries, s). 4 - tries)") auto

text \<open>
  \<^verbatim>\<open>processRequest(id, req)\<close>: refresh, write loop, then the send on
  \<^verbatim>\<open>requestSentChan\<close> and \<^verbatim>\<open>return nil\<close>. The \<^verbatim>\<open>err\<close> of the write is declared inside
  the loop, so nothing of it reaches the code after the loop. This is the function on
  its own: a send that cannot proceed is its result \<open>Blocks\<close>. What becomes of that
  send when the response pumps are running is \<open>forward\<close> in the request pump below.
\<close>

definition processRequest ::
  "environment \<Rightarrow> 16 word \<Rightarrow> string \<Rightarrow> session \<Rightarrow> error option exec \<times> session" where
  "processRequest env rid req s =
    (let host = LocalRelayServer (tun s) in
     (case refreshLocalConnection env host False s of
        (Some e, s1) \<Rightarrow> (Returns (Some e), s1)
      | (None, s1) \<Rightarrow>
         (case writeLoop env req host 1 s1 of
            (Returns None, s2) \<Rightarrow>
              (case send (requestSentChan (tun s2)) of
                 None \<Rightarrow> (Blocks, s2)
               | Some ch \<Rightarrow> (Returns None, s2\<lparr>tun := (tun s2)\<lparr>requestSentChan := ch\<rparr>\<rparr>))
          | (r, s2) \<Rightarrow> (r, s2))))"

section \<open>Request framer\<close>

subsection \<open>Writing the id: the verb \<^verbatim>\<open>%04x\<close> of package fmt\<close>

text \<open>
  \<^verbatim>\<open>fmt.Fprintf(writer, "%04x", id)\<close> with \<^verbatim>\<open>id int64\<close>. The formatter writes the
  digits of the absolute value right to left, sixteen at a time, then pads with zeros
  up to the width; a negative value gives one column of the width to its sign.
\<close>

definition ldigits :: string where
  "ldigits = ''0123456789abcdef''"

function fmtHex :: "nat \<Rightarrow> string" where
  "fmtHex u = (if 16 \<le> u then fmtHex (u div 16) @ [ldigits ! (u mod 16)] else [ldigits ! u])"
  by pat_completeness auto
termination
  by (relation "measure (\<lambda>u. u)") auto

declare fmtHex.simps [simp del]

definition zeroPad :: "nat \<Rightarrow> string \<Rightarrow> string" where
  "zeroPad prec ds = replicate (prec - length ds) (CHR ''0'') @ ds"

definition fmt04x :: "64 word \<Rightarrow> string" where
  "fmt04x v =
    (let i = sint v in
     if i < 0 then CHR ''-'' # zeroPad 3 (fmtHex (nat (- i)))
     else zeroPad 4 (fmtHex (nat i)))"

subsection \<open>Reading the id: \<^verbatim>\<open>fmt.Fscanf(io.LimitReader(reader, 4), "%04x", &id)\<close>\<close>

text \<open>
  The scanner sees at most the first four bytes of the message, and it reads them rune
  by rune: a byte below \<^verbatim>\<open>0x80\<close> is a rune of its own, any other byte starts a UTF-8
  sequence, and the scanner takes bytes from the reader one at a time until
  \<^verbatim>\<open>utf8.FullRune\<close> holds of what it has (or the reader is at its end), then decodes with
  \<^verbatim>\<open>utf8.DecodeRune\<close>. Bytes taken from the reader that the decoded rune does not cover
  are kept by the scanner for its next rune; they are not given back to the reader.

  A byte is a number below 256. \<open>seqLen b\<close> is the length of the sequence that the first
  byte \<open>b\<close> announces (1 for ASCII and for a byte that starts no sequence), and
  \<open>secondLo b\<close>, \<open>secondHi b\<close> bound the second byte of that sequence: the table
  \<^verbatim>\<open>first\<close> and the \<^verbatim>\<open>acceptRanges\<close> of package \<^verbatim>\<open>unicode/utf8\<close>.
\<close>

definition RuneError :: nat where
  "RuneError = 0xFFFD"

definition seqLen :: "nat \<Rightarrow> nat" where
  "seqLen b =
    (if b < 0xC2 then 1 else if b < 0xE0 then 2 else if b < 0xF0 then 3
     else if b < 0xF5 then 4 else 1)"

definition secondLo :: "nat \<Rightarrow> nat" where
  "secondLo b = (if b = 0xE0 then 0xA0 else if b = 0xF0 then 0x90 else 0x80)"

definition secondHi :: "nat \<Rightarrow> nat" where
  "secondHi b = (if b = 0xED then 0x9F else if b = 0xF4 then 0x8F else 0xBF)"

definition isCont :: "nat \<Rightarrow> bool" where
  "isCont b = (0x80 \<le> b \<and> b \<le> 0xBF)"

definition FullRune :: "nat list \<Rightarrow> bool" where
  "FullRune p =
    (case p of
       [] \<Rightarrow> False
     | b # rest \<Rightarrow>
        (if seqLen b \<le> length p then True
         else
          (case rest of
             [] \<Rightarrow> False
           | b1 # rest1 \<Rightarrow>
              (if b1 < secondLo b \<or> secondHi b < b1 then True
               else
                (case rest1 of
                   [] \<Rightarrow> False
                 | b2 # rest2 \<Rightarrow> \<not> isCont b2)))))"

text \<open>\<^verbatim>\<open>utf8.DecodeRune\<close>: the rune and the number of bytes it covers.\<close>

definition DecodeRune :: "nat list \<Rightarrow> nat \<times> nat" where
  "DecodeRune p =
    (case p of
       [] \<Rightarrow> (RuneError, 0)
     | b # rest \<Rightarrow>
        (if b < 0x80 then (b, 1)
         else if seqLen b = 1 then (RuneError, 1)
         else if length p < seqLen b then (RuneError, 1)
         else
          (case rest of
             [] \<Rightarrow> (RuneError, 1)
           | b1 # rest1 \<Rightarrow>
              (if b1 < secondLo b \<or> secondHi b < b1 then (RuneError, 1)
               else if seqLen b = 2 then ((b mod 32) * 64 + b1 mod 64, 2)
               else
                (case rest1 of
                   [] \<Rightarrow> (RuneError, 1)
                 | b2 # rest2 \<Rightarrow>
                    (if \<not> isCont b2 then (RuneError, 1)
                     else if seqLen b = 3 then
                       ((b mod 16) * 4096 + (b1 mod 64) * 64 + b2 mod 64, 3)
                     else
                      (case rest2 of
                         [] \<Rightarrow> (RuneError, 1)
                       | b3 # rest3 \<Rightarrow>
                          (if \<not> isCont b3 then (RuneError, 1)
                           else ((b mod 8) * 262144 + (b1 mod 64) * 4096 + (b2 mod 64) * 64
                                   + b3 mod 64, 4)))))))))"

text \<open>
  How many bytes the loop \<^verbatim>\<open>for n = 1; !utf8.FullRune(r.buf[:n]); n++\<close> of the scanner's
  \<^verbatim>\<open>ReadRune\<close> ends with, when the bytes are there. Four bytes are always a full rune.
\<close>

definition bytesNeeded :: "nat list \<Rightarrow> nat" where
  "bytesNeeded p =
    (if FullRune (take 1 p) then 1 else if FullRune (take 2 p) then 2
     else if FullRune (take 3 p) then 3 else 4)"

text \<open>
  One \<^verbatim>\<open>ReadRune\<close> of the scanner on the bytes \<open>bs\<close> that are left of the window.
  \<open>past\<close> is what a read beyond the window reports: \<open>None\<close> is \<^verbatim>\<open>io.EOF\<close> (the end of
  the message or the limit of four bytes). \<open>GotRune r sz n\<close>: the rune \<open>r\<close> covers
  \<open>sz\<close> bytes and \<open>n\<close> bytes were looked at. A sequence cut short by \<^verbatim>\<open>io.EOF\<close> is
  decoded as it is; one cut short by another error makes the scan fail with that error.
\<close>

datatype rune_read = GotRune nat nat nat | GotEOF | GotError error

definition ReadRune :: "string \<Rightarrow> error option \<Rightarrow> rune_read" where
  "ReadRune bs past =
    (case bs of
       [] \<Rightarrow> (case past of None \<Rightarrow> GotEOF | Some e \<Rightarrow> GotError e)
     | c # cs \<Rightarrow>
        (let p = map of_char bs in
         if of_char c < (0x80 :: nat) then GotRune (of_char c) 1 1
         else if bytesNeeded p \<le> length p then
           (case DecodeRune (take (bytesNeeded p) p) of
              (r, sz) \<Rightarrow> GotRune r sz (bytesNeeded p))
         else
           (case past of
              None \<Rightarrow> (case DecodeRune p of (r, sz) \<Rightarrow> GotRune r sz (length p))
            | Some e \<Rightarrow> GotError e)))"

text \<open>The table \<^verbatim>\<open>space\<close> of package \<^verbatim>\<open>fmt\<close>.\<close>

definition isSpace :: "nat \<Rightarrow> bool" where
  "isSpace r =
    ((0x09 \<le> r \<and> r \<le> 0x0D) \<or> r = 0x20 \<or> r = 0x85 \<or> r = 0xA0 \<or> r = 0x1680 \<or>
     (0x2000 \<le> r \<and> r \<le> 0x200A) \<or> r = 0x2028 \<or> r = 0x2029 \<or> r = 0x202F \<or>
     r = 0x205F \<or> r = 0x3000)"

definition hexDigit :: "char \<Rightarrow> nat option" where
  "hexDigit c =
    (let n = (of_char c :: nat) in
     if 48 \<le> n \<and> n \<le> 57 then Some (n - 48)
     else if 97 \<le> n \<and> n \<le> 102 then Some (n - 87)
     else if 65 \<le> n \<and> n \<le> 70 then Some (n - 55)
     else None)"

definition isHexDigit :: "char \<Rightarrow> bool" where
  "isHexDigit c = (hexDigit c \<noteq> None)"

definition hexRune :: "nat \<Rightarrow> bool" where
  "hexRune r = (r < 0x80 \<and> isHexDigit (char_of r))"

lemma DecodeRune_size: "p \<noteq> [] \<Longrightarrow> 0 < snd (DecodeRune p)"
  by (auto simp: DecodeRune_def split: list.splits)

lemma bytesNeeded_pos: "0 < bytesNeeded p"
  by (simp add: bytesNeeded_def)

lemma ReadRune_size:
  assumes "ReadRune bs past = GotRune r sz n"
  shows "0 < sz" and "bs \<noteq> []"
proof -
  from assms show "bs \<noteq> []"
    by (auto simp: ReadRune_def split: option.splits)
  then obtain c cs where bs: "bs = c # cs"
    by (cases bs) auto
  define p :: "nat list" where "p = map of_char bs"
  have p: "p \<noteq> []" "take (bytesNeeded p) p \<noteq> []"
    using bs bytesNeeded_pos [of p] by (auto simp: p_def)
  from DecodeRune_size [OF p(1)] DecodeRune_size [OF p(2)] assms show "0 < sz"
    unfolding ReadRune_def bs list.case Let_def p_def [symmetric, unfolded bs]
    by (auto split: if_splits prod.splits option.splits)
qed

lemma ReadRune_less:
  "ReadRune bs past = GotRune r sz n \<Longrightarrow> length bs - sz < length bs"
  using ReadRune_size [of bs past r sz n] by (cases bs) auto

text \<open>
  The scanner's steps carry the bytes left of the window, the position \<open>pos\<close> of the
  next rune in the window and the number \<open>got\<close> of bytes taken from the reader so far.
  A rune that is looked at and not accepted stays with the scanner; its bytes have
  been taken from the reader all the same.

  \<^verbatim>\<open>SkipSpace\<close>: a newline is an error; a carriage return is skipped like any other
  space (the scanner looks at the rune after it, which the next turn of the loop reads
  again).
\<close>

function SkipSpace ::
  "error option \<Rightarrow> string \<Rightarrow> nat \<Rightarrow> nat \<Rightarrow> error + string \<times> nat \<times> nat" where
  "SkipSpace past bs pos got =
    (case ReadRune bs past of
       GotEOF \<Rightarrow> Inr (bs, pos, got)
     | GotError e \<Rightarrow> Inl e
     | GotRune r sz n \<Rightarrow>
        (if r = 0x0A then Inl (ScanError ''unexpected newline'')
         else if isSpace r then SkipSpace past (drop sz bs) (pos + sz) (max got (pos + n))
         else Inr (bs, pos, max got (pos + n))))"
  by pat_completeness auto
termination
  by (relation "measure (\<lambda>(past, bs, pos, got). length bs)")
     (auto simp: ReadRune_less ReadRune_less [OF sym])

declare SkipSpace.simps [simp del]

text \<open>\<^verbatim>\<open>s.accept(sign)\<close>: a sign is put into the token.\<close>

definition acceptSign ::
  "error option \<Rightarrow> string \<Rightarrow> nat \<Rightarrow> nat \<Rightarrow> error + string \<times> string \<times> nat \<times> nat" where
  "acceptSign past bs pos got =
    (case ReadRune bs past of
       GotEOF \<Rightarrow> Inr ([], bs, pos, got)
     | GotError e \<Rightarrow> Inl e
     | GotRune r sz n \<Rightarrow>
        (if r = 0x2B \<or> r = 0x2D
         then Inr ([char_of r], drop sz bs, pos + sz, max got (pos + n))
         else Inr ([], bs, pos, max got (pos + n))))"

text \<open>
  \<^verbatim>\<open>for s.accept(digits) {}\<close> with the digits of the verb \<^verbatim>\<open>x\<close>,
  \<^verbatim>\<open>0123456789aAbBcCdDeEfF\<close>.
\<close>

function acceptDigits ::
  "error option \<Rightarrow> string \<Rightarrow> string \<Rightarrow> nat \<Rightarrow> nat \<Rightarrow> error + string \<times> string \<times> nat \<times> nat" where
  "acceptDigits past tok bs pos got =
    (case ReadRune bs past of
       GotEOF \<Rightarrow> Inr (tok, bs, pos, got)
     | GotError e \<Rightarrow> Inl e
     | GotRune r sz n \<Rightarrow>
        (if hexRune r
         then acceptDigits past (tok @ [char_of r]) (drop sz bs) (pos + sz) (max got (pos + n))
         else Inr (tok, bs, pos, max got (pos + n))))"
  by pat_completeness auto
termination
  by (relation "measure (\<lambda>(past, tok, bs, pos, got). length bs)")
     (auto simp: ReadRune_less ReadRune_less [OF sym])

declare acceptDigits.simps [simp del]

text \<open>
  \<^verbatim>\<open>scanNumber\<close>: the input must not be at its end and must start with a digit; then
  digits are taken up to the first rune that is not one.
\<close>

definition scanNumber ::
  "error option \<Rightarrow> string \<Rightarrow> string \<Rightarrow> nat \<Rightarrow> nat \<Rightarrow> error + string \<times> string \<times> nat \<times> nat" where
  "scanNumber past tok bs pos got =
    (case ReadRune bs past of
       GotEOF \<Rightarrow> Inl EOF
     | GotError e \<Rightarrow> Inl e
     | GotRune r sz n \<Rightarrow>
        (if hexRune r then acceptDigits past tok bs pos got
         else Inl (ScanError ''expected integer'')))"

fun ParseHex :: "string \<Rightarrow> nat \<Rightarrow> nat option" where
  "ParseHex [] n = Some n"
| "ParseHex (c # cs) n =
    (case hexDigit c of
       None \<Rightarrow> None
     | Some d \<Rightarrow> ParseHex cs (n * 16 + d))"

text \<open>
  \<^verbatim>\<open>strconv.ParseInt(tok, 16, 64)\<close> on the token (its sign, if any, in front), and the
  check that the value fits the 16 bits of \<^verbatim>\<open>var id int16\<close>: the scanner reports an
  integer overflow otherwise.
\<close>

definition scanInt16 :: "string \<Rightarrow> error + int" where
  "scanInt16 tok =
    (let neg = (take 1 tok = ''-'');
         ds = (if take 1 tok = ''-'' \<or> take 1 tok = ''+'' then drop 1 tok else tok)
     in (case ParseHex ds 0 of
           None \<Rightarrow> Inl (ScanError ''invalid syntax'')
         | Some n \<Rightarrow>
            (let i = (if neg then - int n else int n) in
             if i < - 32768 \<or> 32767 < i
             then Inl (ScanError (''integer overflow on token '' @ tok))
             else Inr i)))"

text \<open>
  The result is the scanned value and the number of bytes taken from the reader.
\<close>

definition Fscanf_04x :: "reader \<Rightarrow> error + int \<times> nat" where
  "Fscanf_04x r =
    (let lim = take 4 (rdata r);
         past = (if length (rdata r) < 4 then rerr r else None)
     in (case SkipSpace past lim 0 0 of
           Inl e \<Rightarrow> Inl e
         | Inr (bs1, pos1, got1) \<Rightarrow>
            (case acceptSign past bs1 pos1 got1 of
               Inl e \<Rightarrow> Inl e
             | Inr (sign, bs2, pos2, got2) \<Rightarrow>
                (case scanNumber past sign bs2 pos2 got2 of
                   Inl e \<Rightarrow> Inl e
                 | Inr (tok, bs3, pos3, got3) \<Rightarrow>
                    (case scanInt16 tok of
                       Inl e \<Rightarrow> Inl e
                     | Inr i \<Rightarrow> Inr (i, got3))))))"

subsection \<open>One inbound frame\<close>

text \<open>
  \<^verbatim>\<open>ws.NextReader()\<close>: the next entry of what the peer sends. A message longer than the
  read limit of the connection is not delivered: the library reports \<^verbatim>\<open>ErrReadLimit\<close>.
\<close>

definition NextReader :: "websocket_Conn \<Rightarrow> (error + int \<times> reader) \<times> websocket_Conn" where
  "NextReader w =
    (case incoming w of
       [] \<Rightarrow> (Inl (OpError ''use of closed network connection''), w)
     | m # rest \<Rightarrow>
        (case m of
           ReadFails e \<Rightarrow> (Inl e, w\<lparr>incoming := rest\<rparr>)
         | Message mt r \<Rightarrow>
            (if 0 < readLimit w \<and> readLimit w < length (rdata r)
             then (Inl ErrReadLimit, w\<lparr>incoming := rest\<rparr>)
             else (Inr (mt, r), w\<lparr>incoming := rest\<rparr>))))"

text \<open>
  The id and the payload of a message (lines 223 to 238 of the source): the id is
  converted to \<^verbatim>\<open>int16\<close>, the payload is what \<^verbatim>\<open>ioutil.ReadAll\<close> finds after the bytes
  the scanner took.
\<close>

definition readRequest :: "reader \<Rightarrow> error + 16 word \<times> string" where
  "readRequest r =
    (case Fscanf_04x r of
       Inl e \<Rightarrow> Inl e
     | Inr (i, n) \<Rightarrow>
        (case rerr r of
           Some e \<Rightarrow> Inl e
         | None \<Rightarrow> Inr (word_of_int i, drop n (rdata r))))"

text \<open>
  Reading one request from the connection: \<^verbatim>\<open>NextReader\<close>, the test of the message
  type, then id and payload. \<open>Inl\<close> is every way the loop of \<^verbatim>\<open>handleRequests\<close> breaks.
\<close>

definition nextRequest :: "websocket_Conn \<Rightarrow> (error + 16 word \<times> string) \<times> websocket_Conn" where
  "nextRequest w =
    (case NextReader w of
       (Inl e, w1) \<Rightarrow> (Inl e, w1)
     | (Inr (mt, r), w1) \<Rightarrow>
        (if mt \<noteq> BinaryMessage then (Inl (Errorf ''WS ReadMessage Invalid message type''), w1)
         else (readRequest r, w1)))"

subsection \<open>One outbound frame\<close>

text \<open>
  \<^verbatim>\<open>writeResponseMessage(id, resp)\<close>: any fault closes the socket; without a fault the
  message sent is the formatted id followed by the response bytes.
\<close>

definition encodeFrame :: "64 word \<Rightarrow> string \<Rightarrow> string" where
  "encodeFrame rid resp = fmt04x rid @ resp"

definition wsClose :: "websocket_Conn \<Rightarrow> websocket_Conn" where
  "wsClose w = w\<lparr>closed := True\<rparr>"

definition writeResponseMessage :: "environment \<Rightarrow> 64 word \<Rightarrow> string \<Rightarrow> session \<Rightarrow> session" where
  "writeResponseMessage env rid resp s =
    (let f = WsWrite env (responses (world s));
         s1 = s\<lparr>world := (world s)\<lparr>responses := responses (world s) + 1\<rparr>\<rparr>;
         w = ws (wsc s1);
         failed = s1\<lparr>wsc := (wsc s1)\<lparr>ws := wsClose w\<rparr>\<rparr>
     in (case nextWriterErr f of
           Some e \<Rightarrow> failed
         | None \<Rightarrow>
            (case idErr f of
               Some e \<Rightarrow> failed
             | None \<Rightarrow>
                (case copyErr f of
                   Some e \<Rightarrow> failed
                 | None \<Rightarrow>
                    (case closeErr f of
                       Some e \<Rightarrow> failed
                     | None \<Rightarrow>
                        s1\<lparr>wsc := (wsc s1)\<lparr>ws :=
                             w\<lparr>outgoing := outgoing w @ [encodeFrame rid resp]\<rparr>\<rparr>\<rparr>)))))"


section \<open>Starting and stopping\<close>

text \<open>
  \<^verbatim>\<open>startSession\<close> makes the two channels, clears the retry count and starts the dial
  loop as a goroutine; \<^verbatim>\<open>Stop\<close> sends one token on \<^verbatim>\<open>exitChan\<close>.
\<close>

definition startSession :: "WSTunnelClient \<Rightarrow> WSTunnelClient" where
  "startSession t =
     t\<lparr>exitChan := make_chan 1, requestSentChan := make_chan 1, retryOnFailCount := 0\<rparr>"

definition Stop :: "WSTunnelClient \<Rightarrow> unit exec \<times> WSTunnelClient" where
  "Stop t =
    (case send (exitChan t) of
       None \<Rightarrow> (Blocks, t)
     | Some ch \<Rightarrow> (Returns (), t\<lparr>exitChan := ch\<rparr>))"

text \<open>
  The exit check of both loops:
  \<^verbatim>\<open>select { case <-t.exitChan: break; default: }\<close>.
  In Go a \<^verbatim>\<open>break\<close> inside a \<^verbatim>\<open>select\<close> ends the \<^verbatim>\<open>select\<close> statement, not the
  \<^verbatim>\<open>for\<close> around it. So the check takes the token if there is one, and in either
  case control goes on to the statement after the \<^verbatim>\<open>select\<close>.
\<close>

definition exitCheck :: "WSTunnelClient \<Rightarrow> WSTunnelClient" where
  "exitCheck t = (case try_recv (exitChan t) of (got, ch) \<Rightarrow> t\<lparr>exitChan := ch\<rparr>)"

section \<open>Response pump\<close>

text \<open>
  One pass of the loop of \<^verbatim>\<open>processResponses\<close>: the first \<^verbatim>\<open>select\<close> (a token on
  \<^verbatim>\<open>requestSentChan\<close>, or nothing), then the exit check. The \<^verbatim>\<open>break\<close> after a failed
  refresh ends the first \<^verbatim>\<open>select\<close> only. \<^verbatim>\<open>SetReadDeadline\<close> on a nil
  \<^verbatim>\<open>localConnection\<close> panics. The error of \<^verbatim>\<open>ReadAll\<close> is discarded by the source.
\<close>

definition exitCheckS :: "session \<Rightarrow> session" where
  "exitCheckS s = s\<lparr>tun := exitCheck (tun s)\<rparr>"

definition responseIteration ::
  "environment \<Rightarrow> string \<Rightarrow> 64 word \<times> session \<Rightarrow> unit exec \<times> 64 word \<times> session" where
  "responseIteration env host st =
    (case st of
       (rid, s) \<Rightarrow>
        (case try_recv (requestSentChan (tun s)) of
           (False, ch) \<Rightarrow> (Returns (), rid, exitCheckS s)
         | (True, ch) \<Rightarrow>
            (case refreshLocalConnection env host False
                    (s\<lparr>tun := (tun s)\<lparr>requestSentChan := ch\<rparr>\<rparr>) of
               (Some e, s2) \<Rightarrow> (Returns (), rid, exitCheckS s2)
             | (None, s2) \<Rightarrow>
                (case localConnection (wsc s2) of
                   None \<Rightarrow> (Panics, rid, s2)
                 | Some c \<Rightarrow>
                    (let buf = ConnReadAll env (drains (world s2)) c;
                         s3 = s2\<lparr>world := (world s2)\<lparr>drains := drains (world s2) + 1\<rparr>\<rparr>
                     in if 0 < length buf
                        then (Returns (), rid + 1, exitCheckS (writeResponseMessage env rid buf s3))
                        else (Returns (), rid, exitCheckS s3))))))"

text \<open>
  The loop, run for at most \<open>n\<close> passes; \<open>None\<close>: still running after \<open>n\<close> passes. The
  source has no statement that leaves this \<^verbatim>\<open>for\<close>, so no equation gives
  \<open>Some (Returns ())\<close>.
\<close>

fun responseLoop ::
  "environment \<Rightarrow> string \<Rightarrow> nat \<Rightarrow> 64 word \<times> session \<Rightarrow> unit exec option \<times> 64 word \<times> session" where
  "responseLoop env host 0 st = (None, st)"
| "responseLoop env host (Suc n) st =
    (case responseIteration env host st of
       (Returns u, st1) \<Rightarrow> responseLoop env host n st1
     | (Panics, st1) \<Rightarrow> (Some Panics, st1)
     | (Exits, st1) \<Rightarrow> (Some Exits, st1)
     | (Blocks, st1) \<Rightarrow> (Some Blocks, st1))"

definition processResponses ::
  "environment \<Rightarrow> nat \<Rightarrow> session \<Rightarrow> unit exec option \<times> 64 word \<times> session" where
  "processResponses env n s = responseLoop env (LocalRelayServer (tun s)) n (0, s)"


section \<open>Request pump\<close>

text \<open>
  The local relay connector never touches the WebSocket of the session, and the
  response pump only writes to it; the request loop below terminates because every
  pass takes one entry from what the peer sends.
\<close>

lemma dialLocalConnection_ws:
  "ws (wsc (snd (dialLocalConnection env s))) = ws (wsc s)"
  by (simp add: dialLocalConnection_def Let_def split: sum.splits)

lemma refreshLocalConnection_ws:
  "ws (wsc (snd (refreshLocalConnection env host force s))) = ws (wsc s)"
  by (simp add: refreshLocalConnection_def Let_def dialLocalConnection_ws split: option.splits)

lemma writeLoop_ws:
  "ws (wsc (snd (writeLoop env req host tries s))) = ws (wsc s)"
proof (induction env req host tries s rule: writeLoop.induct)
  case (1 env req host tries s)
  show ?case
  proof (cases "tries \<le> 3")
    case False
    then show ?thesis by (simp add: writeLoop.simps)
  next
    case le: True
    show ?thesis
    proof (cases "localConnection (wsc s)")
      case None
      with le show ?thesis by (simp add: writeLoop.simps)
    next
      case (Some c)
      define s1 where "s1 = s\<lparr>world := (world s)\<lparr>writes := writes (world s) + 1\<rparr>\<rparr>"
      show ?thesis
      proof (cases "ConnWrite env (writes (world s)) c req")
        case None
        with le Some show ?thesis by (simp add: writeLoop.simps)
      next
        case werr: (Some e)
        obtain r s2 where rf: "refreshLocalConnection env host True s1 = (r, s2)"
          by (cases "refreshLocalConnection env host True s1")
        have s2: "ws (wsc s2) = ws (wsc s)"
          using refreshLocalConnection_ws [of env host True s1] rf by (simp add: s1_def)
        show ?thesis
        proof (cases r)
          case None
          have "ws (wsc (snd (writeLoop env req host (tries + 1) s2))) = ws (wsc s2)"
            using "1.IH" [OF le Some s1_def werr rf [symmetric]] None by simp
          with le Some werr rf None s2 show ?thesis
            by (simp add: writeLoop.simps [of env req host tries s] s1_def)
        next
          case (Some e')
          with le \<open>localConnection (wsc s) = Some c\<close> werr rf s2 show ?thesis
            by (simp add: writeLoop.simps [of env req host tries s] s1_def)
        qed
      qed
    qed
  qed
qed

lemma processRequest_ws:
  "ws (wsc (snd (processRequest env rid req s))) = ws (wsc s)"
proof -
  obtain r s1 where rf: "refreshLocalConnection env (LocalRelayServer (tun s)) False s = (r, s1)"
    by (cases "refreshLocalConnection env (LocalRelayServer (tun s)) False s")
  have s1: "ws (wsc s1) = ws (wsc s)"
    using refreshLocalConnection_ws [of env "LocalRelayServer (tun s)" False s] rf by simp
  obtain x s2 where wl: "writeLoop env req (LocalRelayServer (tun s)) 1 s1 = (x, s2)"
    by (cases "writeLoop env req (LocalRelayServer (tun s)) 1 s1")
  have s2: "ws (wsc s2) = ws (wsc s)"
    using writeLoop_ws [of env req "LocalRelayServer (tun s)" 1 s1] wl s1 by simp
  show ?thesis
    using rf wl s1 s2
    by (simp add: processRequest_def Let_def split: option.splits exec.splits)
qed

lemma writeResponseMessage_incoming:
  "incoming (ws (wsc (writeResponseMessage env rid buf s))) = incoming (ws (wsc s))"
  by (simp add: writeResponseMessage_def wsClose_def Let_def split: option.splits)

lemma responseIteration_incoming:
  "incoming (ws (wsc (snd (snd (responseIteration env host (rid, s)))))) = incoming (ws (wsc s))"
proof -
  obtain got ch where tr: "try_recv (requestSentChan (tun s)) = (got, ch)"
    by (cases "try_recv (requestSentChan (tun s))")
  let ?s1 = "s\<lparr>tun := (tun s)\<lparr>requestSentChan := ch\<rparr>\<rparr>"
  obtain r s2 where rf: "refreshLocalConnection env host False ?s1 = (r, s2)"
    by (cases "refreshLocalConnection env host False ?s1")
  have "ws (wsc s2) = ws (wsc s)"
    using refreshLocalConnection_ws [of env host False ?s1] rf by simp
  with tr rf show ?thesis
    by (cases got)
       (auto simp: responseIteration_def exitCheckS_def writeResponseMessage_incoming Let_def
             split: option.splits)
qed

text \<open>
  One pass of the loop of a response pump, placed among the steps of the request pump
  of the session \<open>s\<close>. The pump of the session works on the connection object of the
  session; an older pump works on the object it was started on, and shares the client
  and the outside world with everybody else. A number that names no pump makes no pass.

  A pass is placed as a whole between two steps of the request pump: when
  \<^verbatim>\<open>handleRequests\<close> has started the pump of the session, after each request the loop
  has dealt with, and where a send has to wait. The passes that older pumps make while
  the dial loop is between two sessions touch the two channels and their own
  connections only; they are placed at the start of the next session.
\<close>

definition pumpPass :: "environment \<Rightarrow> nat \<Rightarrow> session \<Rightarrow> unit exec \<times> session" where
  "pumpPass env i s =
    (case i of
       0 \<Rightarrow>
        (case responseIteration env (pumpHost (responder s)) (pumpId (responder s), s) of
           (r, rid, s1) \<Rightarrow> (r, s1\<lparr>responder := (responder s1)\<lparr>pumpId := rid\<rparr>\<rparr>))
     | Suc j \<Rightarrow>
        (if j < length (olderPumps (world s)) then
           (case olderPumps (world s) ! j of
              (c, p) \<Rightarrow>
               (case responseIteration env (pumpHost p) (pumpId p, s\<lparr>wsc := c\<rparr>) of
                  (r, rid, s1) \<Rightarrow>
                   (r, s1\<lparr>wsc := wsc s,
                          world := (world s1)\<lparr>olderPumps :=
                            (olderPumps (world s1))[j := (wsc s1, p\<lparr>pumpId := rid\<rparr>)]\<rparr>\<rparr>)))
         else (Returns (), s)))"

fun runPumps :: "environment \<Rightarrow> nat list \<Rightarrow> session \<Rightarrow> unit exec \<times> session" where
  "runPumps env [] s = (Returns (), s)"
| "runPumps env (i # rest) s =
    (case pumpPass env i s of
       (Returns u, s1) \<Rightarrow> runPumps env rest s1
     | (Panics, s1) \<Rightarrow> (Panics, s1)
     | (Exits, s1) \<Rightarrow> (Exits, s1)
     | (Blocks, s1) \<Rightarrow> (Blocks, s1))"

text \<open>A point where the request pump lets the response pumps run.\<close>

definition yield :: "environment \<Rightarrow> session \<Rightarrow> unit exec \<times> session" where
  "yield env s =
     runPumps env (Schedule env (yields (world s)))
       (s\<lparr>world := (world s)\<lparr>yields := Suc (yields (world s))\<rparr>\<rparr>)"

text \<open>
  The send on \<^verbatim>\<open>requestSentChan\<close> that finds the buffer full. The request pump
  waits; every response pump polls the channel in its loop, so one of them (the
  environment says which) receives the token that is in the buffer, and the send is
  completed. A nil channel is never ready: that send waits for ever.
\<close>

definition waitingSend :: "environment \<Rightarrow> session \<Rightarrow> error option exec \<times> session" where
  "waitingSend env s =
    (let k = Taker env (yields (world s));
         i = (if k \<le> length (olderPumps (world s)) then k else 0)
     in (case pumpPass env i (s\<lparr>world := (world s)\<lparr>yields := Suc (yields (world s))\<rparr>\<rparr>) of
           (Returns u, s1) \<Rightarrow>
            (case send (requestSentChan (tun s1)) of
               None \<Rightarrow> (Blocks, s1)
             | Some ch \<Rightarrow> (Returns None, s1\<lparr>tun := (tun s1)\<lparr>requestSentChan := ch\<rparr>\<rparr>))
         | (Panics, s1) \<Rightarrow> (Panics, s1)
         | (Exits, s1) \<Rightarrow> (Exits, s1)
         | (Blocks, s1) \<Rightarrow> (Blocks, s1)))"

text \<open>
  \<^verbatim>\<open>processRequest\<close> with the response pumps running: its send on
  \<^verbatim>\<open>requestSentChan\<close> is completed once a pump has made room, and
  \<^verbatim>\<open>processRequest\<close> returns nil.
\<close>

definition forward ::
  "environment \<Rightarrow> 16 word \<Rightarrow> string \<Rightarrow> session \<Rightarrow> error option exec \<times> session" where
  "forward env rid req s =
    (case processRequest env rid req s of
       (Blocks, s1) \<Rightarrow> waitingSend env s1
     | (Returns err, s1) \<Rightarrow> (Returns err, s1)
     | (Panics, s1) \<Rightarrow> (Panics, s1)
     | (Exits, s1) \<Rightarrow> (Exits, s1))"

lemma pumpPass_incoming:
  "incoming (ws (wsc (snd (pumpPass env i s)))) = incoming (ws (wsc s))"
proof (cases i)
  case 0
  obtain r rid s1 where ri: "responseIteration env (pumpHost (responder s)) (pumpId (responder s), s) = (r, rid, s1)"
    by (cases "responseIteration env (pumpHost (responder s)) (pumpId (responder s), s)") auto
  with 0 responseIteration_incoming [of env "pumpHost (responder s)" "pumpId (responder s)" s]
  show ?thesis
    by (simp add: pumpPass_def)
next
  case (Suc j)
  then show ?thesis
    by (simp add: pumpPass_def split: prod.splits)
qed

lemma runPumps_incoming:
  "incoming (ws (wsc (snd (runPumps env order s)))) = incoming (ws (wsc s))"
proof (induction order arbitrary: s)
  case Nil
  show ?case by simp
next
  case (Cons i rest)
  obtain r s1 where pp: "pumpPass env i s = (r, s1)"
    by (cases "pumpPass env i s")
  with pumpPass_incoming [of env i s] Cons.IH [of s1] show ?case
    by (cases r) simp_all
qed

lemma yield_incoming:
  "incoming (ws (wsc (snd (yield env s)))) = incoming (ws (wsc s))"
  by (simp add: yield_def runPumps_incoming)

lemma waitingSend_incoming:
  "incoming (ws (wsc (snd (waitingSend env s)))) = incoming (ws (wsc s))"
proof -
  define i where "i = (if Taker env (yields (world s)) \<le> length (olderPumps (world s))
      then Taker env (yields (world s)) else 0)"
  define s2 where "s2 = s\<lparr>world := (world s)\<lparr>yields := Suc (yields (world s))\<rparr>\<rparr>"
  obtain x s3 where pp: "pumpPass env i s2 = (x, s3)"
    by (cases "pumpPass env i s2")
  have "incoming (ws (wsc s3)) = incoming (ws (wsc s))"
    using pumpPass_incoming [of env i s2] pp by (simp add: s2_def)
  with pp show ?thesis
    unfolding waitingSend_def Let_def i_def [symmetric] s2_def [symmetric]
    by (cases x) (simp_all split: option.splits)
qed

lemma forward_incoming:
  "incoming (ws (wsc (snd (forward env rid req s)))) = incoming (ws (wsc s))"
proof -
  obtain r s1 where pr: "processRequest env rid req s = (r, s1)"
    by (cases "processRequest env rid req s")
  have s1: "ws (wsc s1) = ws (wsc s)"
    using processRequest_ws [of env rid req s] pr by simp
  with pr waitingSend_incoming [of env s1] show ?thesis
    by (cases r) (simp_all add: forward_def)
qed

lemma nextRequest_takes:
  assumes "nextRequest w = (Inr y, w1)"
  shows "length (incoming w1) < length (incoming w)"
  using assms
  by (auto simp: nextRequest_def NextReader_def split: list.splits ws_read.splits if_splits)

text \<open>
  The loop of \<^verbatim>\<open>handleRequests\<close>. An error of \<^verbatim>\<open>processRequest\<close> is logged and the loop
  goes on; a request without payload is logged and the loop goes on; every failure
  to read a request leaves the loop. After each request the response pumps may run.
\<close>

function requestLoop :: "environment \<Rightarrow> session \<Rightarrow> unit exec \<times> session" where
  "requestLoop env s =
    (case nextRequest (ws (wsc s)) of
       (Inl e, w) \<Rightarrow> (Returns (), s\<lparr>wsc := (wsc s)\<lparr>ws := w\<rparr>\<rparr>)
     | (Inr (rid, request), w) \<Rightarrow>
        (if 0 < length request then
           (case forward env rid request (s\<lparr>wsc := (wsc s)\<lparr>ws := w\<rparr>\<rparr>) of
              (Returns err, s2) \<Rightarrow>
               (case yield env s2 of
                  (Returns u, s3) \<Rightarrow> requestLoop env s3
                | (Panics, s3) \<Rightarrow> (Panics, s3)
                | (Exits, s3) \<Rightarrow> (Exits, s3)
                | (Blocks, s3) \<Rightarrow> (Blocks, s3))
            | (Panics, s2) \<Rightarrow> (Panics, s2)
            | (Exits, s2) \<Rightarrow> (Exits, s2)
            | (Blocks, s2) \<Rightarrow> (Blocks, s2))
         else
           (case yield env (s\<lparr>wsc := (wsc s)\<lparr>ws := w\<rparr>\<rparr>) of
              (Returns u, s3) \<Rightarrow> requestLoop env s3
            | (Panics, s3) \<Rightarrow> (Panics, s3)
            | (Exits, s3) \<Rightarrow> (Exits, s3)
            | (Blocks, s3) \<Rightarrow> (Blocks, s3))))"
  by pat_completeness auto
termination
proof (relation "measure (\<lambda>(env, s). length (incoming (ws (wsc s))))")
  show "wf (measure (\<lambda>(env, s). length (incoming (ws (wsc s)))))"
    by simp
next
  fix env :: environment and s :: session and x w y rid request x2 s2 err x3 s3 u
  assume nr: "(x, w) = nextRequest (ws (wsc s))" and "x = Inr y" and "(rid, request) = y"
    and "0 < length request"
    and fw: "(x2, s2) = forward env rid request (s\<lparr>wsc := (wsc s)\<lparr>ws := w\<rparr>\<rparr>)"
    and "x2 = Returns err"
    and yl: "(x3, s3) = yield env s2" and "x3 = Returns u"
  have "incoming (ws (wsc s2)) = incoming w"
    using forward_incoming [of env rid request "s\<lparr>wsc := (wsc s)\<lparr>ws := w\<rparr>\<rparr>"] fw [symmetric]
    by simp
  then have "incoming (ws (wsc s3)) = incoming w"
    using yield_incoming [of env s2] yl [symmetric] by simp
  moreover have "length (incoming w) < length (incoming (ws (wsc s)))"
    using nr [symmetric] \<open>x = Inr y\<close> by (simp add: nextRequest_takes)
  ultimately show "((env, s3), (env, s)) \<in> measure (\<lambda>(env, s). length (incoming (ws (wsc s))))"
    by simp
next
  fix env :: environment and s :: session and x w y rid request x3 s3 u
  assume nr: "(x, w) = nextRequest (ws (wsc s))" and "x = Inr y" and "(rid, request) = y"
    and "\<not> 0 < length request"
    and yl: "(x3, s3) = yield env (s\<lparr>wsc := (wsc s)\<lparr>ws := w\<rparr>\<rparr>)" and "x3 = Returns u"
  have "incoming (ws (wsc s3)) = incoming w"
    using yield_incoming [of env "s\<lparr>wsc := (wsc s)\<lparr>ws := w\<rparr>\<rparr>"] yl [symmetric] by simp
  moreover have "length (incoming w) < length (incoming (ws (wsc s)))"
    using nr [symmetric] \<open>x = Inr y\<close> by (simp add: nextRequest_takes)
  ultimately show "((env, s3), (env, s)) \<in> measure (\<lambda>(env, s). length (incoming (ws (wsc s))))"
    by simp
qed

declare requestLoop.simps [simp del]

text \<open>
  \<^verbatim>\<open>handleRequests\<close>: the pinger and the response pump of the session are started as
  goroutines (the pinger is outside this development), the loop runs, and a last
  goroutine closes the socket five seconds after the loop ends.
\<close>

definition handleRequests :: "environment \<Rightarrow> session \<Rightarrow> unit exec \<times> session" where
  "handleRequests env s =
    (case yield env (s\<lparr>responder := \<lparr> pumpHost = LocalRelayServer (tun s), pumpId = 0 \<rparr>\<rparr>) of
       (Returns u, s0) \<Rightarrow>
        (case requestLoop env s0 of
           (Returns u, s1) \<Rightarrow> (Returns (), s1\<lparr>wsc := (wsc s1)\<lparr>ws := wsClose (ws (wsc s1))\<rparr>\<rparr>)
         | (Panics, s1) \<Rightarrow> (Panics, s1)
         | (Exits, s1) \<Rightarrow> (Exits, s1)
         | (Blocks, s1) \<Rightarrow> (Blocks, s1))
     | (Panics, s0) \<Rightarrow> (Panics, s0)
     | (Exits, s0) \<Rightarrow> (Exits, s0)
     | (Blocks, s0) \<Rightarrow> (Blocks, s0))"


section \<open>Session supervisor\<close>

text \<open>
  The branch of a successful dial up to the call of \<^verbatim>\<open>handleRequests\<close>: the new
  connection object with its read limit, \<^verbatim>\<open>Connected\<close>, the retry count.
\<close>

definition newConnection :: "websocket_Conn \<Rightarrow> WSConnection" where
  "newConnection w = \<lparr> ws = w\<lparr>readLimit := 100 * 1024 * 1024\<rparr>, localConnection = None \<rparr>"

definition installConnection :: "WSTunnelClient \<Rightarrow> websocket_Conn \<Rightarrow> WSTunnelClient" where
  "installConnection t w =
     t\<lparr>conn := Some (newConnection w), Connected := True, retryOnFailCount := 0\<rparr>"

text \<open>
  The session on which \<^verbatim>\<open>t.conn.handleRequests()\<close> is called; its response pump is
  not started yet.
\<close>

definition pumpSession :: "WSTunnelClient \<Rightarrow> calls \<Rightarrow> websocket_Conn \<Rightarrow> session" where
  "pumpSession t c w =
     \<lparr> wsc = newConnection w, tun = installConnection t w, world = c,
       responder = \<lparr> pumpHost = '''', pumpId = 0 \<rparr> \<rparr>"

text \<open>The client once \<^verbatim>\<open>handleRequests\<close> has returned: \<^verbatim>\<open>t.Connected = false\<close>.\<close>

definition afterPump :: "session \<Rightarrow> WSTunnelClient" where
  "afterPump s = (tun s)\<lparr>conn := Some (wsc s), Connected := False\<rparr>"

text \<open>
  The response pump of the session goes on running when the session is over, on the
  connection object of that session. (\<^verbatim>\<open>t.conn\<close> points to the same object until the next
  successful dial; the dial loop does not read it in between, and \<open>conn\<close> keeps the
  object as it was when the pump returned.)
\<close>

definition leftRunning :: "session \<Rightarrow> calls" where
  "leftRunning s = (world s)\<lparr>olderPumps := olderPumps (world s) @ [(wsc s, responder s)]\<rparr>"

text \<open>
  One pass of the dial loop after its ceiling test: the dial, one of the two branches,
  the exit check. The failure branch reads the response body for a log text only. The
  wait on the 30 second timer that ends the pass has no effect on the state.
\<close>

definition sessionIteration ::
  "environment \<Rightarrow> WSTunnelClient \<times> calls \<Rightarrow> unit exec \<times> WSTunnelClient \<times> calls" where
  "sessionIteration env tc =
    (case tc of
       (t, c) \<Rightarrow>
        (let r = TunnelDial env (tunnelDials c);
             c1 = c\<lparr>tunnelDials := tunnelDials c + 1\<rparr>
         in (case derr r of
               Some e \<Rightarrow>
                 (Returns (), exitCheck (t\<lparr>retryOnFailCount := retryOnFailCount t + 1\<rparr>), c1)
             | None \<Rightarrow>
                (case dws r of
                   None \<Rightarrow> (Panics, t, c1)
                 | Some w \<Rightarrow>
                    (case handleRequests env (pumpSession t c1 w) of
                       (Returns u, s) \<Rightarrow> (Returns (), exitCheck (afterPump s), leftRunning s)
                     | (Panics, s) \<Rightarrow> (Panics, (tun s)\<lparr>conn := Some (wsc s)\<rparr>, world s)
                     | (Exits, s) \<Rightarrow> (Exits, (tun s)\<lparr>conn := Some (wsc s)\<rparr>, world s)
                     | (Blocks, s) \<Rightarrow> (Blocks, (tun s)\<lparr>conn := Some (wsc s)\<rparr>, world s))))))"

text \<open>
  The dial loop, run for at most \<open>n\<close> passes. \<open>None\<close>: the loop is still running after
  \<open>n\<close> passes. \<open>Some (Returns ())\<close>: the loop was left by the \<^verbatim>\<open>break\<close> of the ceiling
  test, the only statement that leaves it.
\<close>

fun sessionLoop ::
  "environment \<Rightarrow> nat \<Rightarrow> WSTunnelClient \<times> calls \<Rightarrow> unit exec option \<times> WSTunnelClient \<times> calls" where
  "sessionLoop env 0 tc = (None, tc)"
| "sessionLoop env (Suc n) tc =
    (if retryOnFailCount (fst tc) = maxRetryAttempts then (Some (Returns ()), tc)
     else
      (case sessionIteration env tc of
         (Returns u, tc1) \<Rightarrow> sessionLoop env n tc1
       | (Panics, tc1) \<Rightarrow> (Some Panics, tc1)
       | (Exits, tc1) \<Rightarrow> (Some Exits, tc1)
       | (Blocks, tc1) \<Rightarrow> (Some Blocks, tc1)))"


section \<open>Notions used to state the properties\<close>

text \<open>
  \<open>sameClient t t'\<close>: the client \<open>t'\<close> differs from \<open>t\<close> at most in what its two
  channels hold.
\<close>

definition sameClient :: "WSTunnelClient \<Rightarrow> WSTunnelClient \<Rightarrow> bool" where
  "sameClient t t' =
     (t' = t\<lparr>exitChan := exitChan t', requestSentChan := requestSentChan t'\<rparr>)"

text \<open>
  \<open>dialFailed env k\<close>: the \<open>k\<close>-th tunnel dial returns an error. \<open>retryInv\<close> is the
  invariant of the dial loop: the retry count is the number of failed dials since the
  last successful one (or since the loop started, at dial \<open>d0\<close>), and is at most the
  ceiling.
\<close>

definition dialFailed :: "environment \<Rightarrow> nat \<Rightarrow> bool" where
  "dialFailed env k = (derr (TunnelDial env k) \<noteq> None)"

definition retryInv :: "environment \<Rightarrow> nat \<Rightarrow> WSTunnelClient \<Rightarrow> calls \<Rightarrow> bool" where
  "retryInv env d0 t c =
    (0 \<le> retryOnFailCount t \<and> retryOnFailCount t \<le> maxRetryAttempts \<and>
     d0 + nat (retryOnFailCount t) \<le> tunnelDials c \<and>
     (\<forall>k < nat (retryOnFailCount t). dialFailed env (tunnelDials c - 1 - k)))"

text \<open>
  \<open>usable ch\<close>: the channel was made with room for at least one token, as
  \<^verbatim>\<open>startSession\<close> makes it. \<open>configured t\<close>: the client has a relay host (which
  \<^verbatim>\<open>TestConnection\<close> insists on) and its \<^verbatim>\<open>requestSentChan\<close> is usable.
  \<open>dialerSound env\<close>: a tunnel dial that returns no error returns a connection, which
  is the contract of \<^verbatim>\<open>websocket.Dialer.Dial\<close>.
\<close>

definition usable :: "chan \<Rightarrow> bool" where
  "usable ch = (case ch of NilChan \<Rightarrow> False | Chan capacity n \<Rightarrow> 0 < capacity \<and> n \<le> capacity)"

definition configured :: "WSTunnelClient \<Rightarrow> bool" where
  "configured t = (LocalRelayServer t \<noteq> '''' \<and> usable (requestSentChan t))"

definition dialerSound :: "environment \<Rightarrow> bool" where
  "dialerSound env = (\<forall>k. derr (TunnelDial env k) = None \<longrightarrow> dws (TunnelDial env k) \<noteq> None)"

section \<open>Scenarios\<close>

text \<open>
  Concrete answers of the outside world, used to run the definitions: a TLS
  configuration that is always built, a ping endpoint that answers 200 (for the
  WebSocket library a failed upgrade: the response comes with \<^verbatim>\<open>ErrBadHandshake\<close>), and
  a dial that finds nobody listening (no response at all).
\<close>

definition tlsOk :: "string \<Rightarrow> error + tls_Config" where
  "tlsOk name = Inr (TlsConfig name)"

definition dial200 :: "websocket_Dialer \<Rightarrow> string \<Rightarrow> dial_result" where
  "dial200 d url =
     \<lparr> dws = None,
       dresp = Some \<lparr> StatusCode = 200, Status = ''200 OK'', Body = '''' \<rparr>,
       derr = Some ErrBadHandshake \<rparr>"

definition dialRefused :: "websocket_Dialer \<Rightarrow> string \<Rightarrow> dial_result" where
  "dialRefused d url =
     \<lparr> dws = None, dresp = None, derr = Some (OpError ''connect: connection refused'') \<rparr>"

text \<open>
  A WebSocket on which nothing arrives, one that delivers a single request, and a local
  relay whose dials always succeed (each with a fresh connection), with the answers to
  the probe and to the writes left open.
\<close>

definition quietWs :: websocket_Conn where
  "quietWs = \<lparr> readLimit = 0, incoming = [], outgoing = [], closed = False \<rparr>"

definition oneRequest :: websocket_Conn where
  "oneRequest =
     quietWs\<lparr>incoming := [Message BinaryMessage \<lparr> rdata = ''0001GET /'', rerr = None \<rparr>]\<rparr>"

definition noFaults :: write_faults where
  "noFaults = \<lparr> nextWriterErr = None, idErr = None, copyErr = None, closeErr = None \<rparr>"

definition relayWorld ::
  "(nat \<Rightarrow> net_Conn \<Rightarrow> error option) \<Rightarrow> (nat \<Rightarrow> net_Conn \<Rightarrow> string \<Rightarrow> error option) \<Rightarrow>
   environment" where
  "relayWorld probe wr =
     \<lparr> TunnelDial = (\<lambda>k. \<lparr> dws = None, dresp = None, derr = Some (OpError ''no route to host'') \<rparr>),
       NetDial = (\<lambda>k host. Inr \<lparr> fd = 10 + k, peerClosed = False \<rparr>),
       ProbeRead = probe,
       ConnWrite = wr,
       ConnReadAll = (\<lambda>k c. []),
       WsWrite = (\<lambda>k. noFaults),
       Schedule = (\<lambda>k. []),
       Taker = (\<lambda>k. 0) \<rparr>"

text \<open>A session of a started client with the given relay host and cached connection.\<close>

definition relaySession :: "string \<Rightarrow> net_Conn option \<Rightarrow> websocket_Conn \<Rightarrow> session" where
  "relaySession host lc w =
     \<lparr> wsc = \<lparr> ws = w, localConnection = lc \<rparr>,
       tun = startSession (InitializeTunnelClient ''h'' host),
       world = no_calls,
       responder = \<lparr> pumpHost = host, pumpId = 0 \<rparr> \<rparr>"

text \<open>
  A tunnel endpoint that accepts every dial and delivers one request, one that refuses
  every dial, a client on which \<^verbatim>\<open>startSession\<close> has run, and a session of that client
  after \<^verbatim>\<open>Stop\<close>.
\<close>

definition tunnelUp :: environment where
  "tunnelUp =
     (relayWorld (\<lambda>k c. None) (\<lambda>k c r. None))
       \<lparr>TunnelDial := (\<lambda>k. \<lparr> dws = Some oneRequest,
                               dresp = Some \<lparr> StatusCode = 101, Status = ''101 Switching Protocols'',
                                              Body = '''' \<rparr>,
                               derr = None \<rparr>)\<rparr>"

definition tunnelDown :: environment where
  "tunnelDown = relayWorld (\<lambda>k c. None) (\<lambda>k c r. None)"

text \<open>A tunnel endpoint that accepts the first two dials and refuses every dial after them.\<close>

definition tunnelUpTwice :: environment where
  "tunnelUpTwice =
     tunnelUp\<lparr>TunnelDial := (\<lambda>k. if k < 2 then TunnelDial tunnelUp k else TunnelDial tunnelDown k)\<rparr>"

definition startedClient :: WSTunnelClient where
  "startedClient = startSession (InitializeTunnelClient ''h'' ''127.0.0.1:8080'')"

definition stoppedSession :: session where
  "stoppedSession =
     (relaySession ''127.0.0.1:8080'' None quietWs)\<lparr>tun := snd (Stop startedClient)\<rparr>"

section \<open>Bootstrap: the configuration checks and the handshake probe\<close>

text \<open>
  No string begins with both \<^verbatim>\<open>http://\<close> and \<^verbatim>\<open>https://\<close>: the fifth character would
  be a colon and an \<open>s\<close>. The local relay test of \<^verbatim>\<open>TestConnection\<close> joins the two
  prefix tests with \<^verbatim>\<open>&&\<close>, so its error is never returned.
\<close>

lemma relay_scheme_test_never_holds:
  "(HasPrefix s ''http://'' \<and> HasPrefix s ''https://'') = False"
proof -
  have l7: "length ''http://'' = 7" and l8: "length ''https://'' = 8"
    by simp_all
  have False if h: "HasPrefix s ''http://'' \<and> HasPrefix s ''https://''"
  proof -
    from h have "take (length ''http://'') s = ''http://''"
      and "take (length ''https://'') s = ''https://''"
      unfolding HasPrefix_def by blast+
    then have a: "take 7 s = ''http://''" and b: "take 8 s = ''https://''"
      by (simp_all only: l7 l8)
    have "take 7 (take 8 s) = take 7 s"
      by (simp add: take_take)
    with a b show False
      by simp
  qed
  then show ?thesis
    by blast
qed

text \<open>
  Claim C1. For every client whose local relay begins with \<^verbatim>\<open>http://\<close> or \<^verbatim>\<open>https://\<close>,
  \<^verbatim>\<open>TestConnection\<close> returns a configuration error and leaves \<^verbatim>\<open>DestURL\<close> unset.
  The code does not: with the local relay \<^verbatim>\<open>http://x:8080\<close> of scenario S1, a valid
  tunnel and a ping endpoint that answers 200, \<^verbatim>\<open>TestConnection\<close> returns nil and sets
  \<^verbatim>\<open>DestURL\<close> and the dialer.
\<close>

theorem TestConnection_accepts_http_relay:
  "TestConnection tlsOk dial200 None ''10.0.0.1'' (InitializeTunnelClient ''h'' ''http://x:8080'') =
    (Returns None,
     (InitializeTunnelClient ''h'' ''http://x:8080'')
       \<lparr> DestURL := ''wss://h/api/v1/edgedevice/connection/tunnel'',
         Dialer := Some \<lparr> ReadBufferSize = 102400, WriteBufferSize = 102400,
                          TLSClientConfig = TlsConfig ''h'', NetDialLocalAddr = ''10.0.0.1'',
                          Proxy = None \<rparr> \<rparr>)"
  by (simp add: TestConnection_def InitializeTunnelClient_def HasPrefix_def TrimSuffix_def
      HasSuffix_def tlsOk_def dial200_def Let_def)

text \<open>
  What \<^verbatim>\<open>TestConnection\<close> does with the answer of the ping dial, for a configuration
  that passes the checks: it reads \<^verbatim>\<open>resp.StatusCode\<close> before anything else.
\<close>

lemma TestConnection_probe:
  assumes "Tunnel t \<noteq> ''''"
    and "HasPrefix (Tunnel t) ''ws://'' \<or> HasPrefix (Tunnel t) ''wss://''"
    and "LocalRelayServer t \<noteq> ''''"
    and "tls (TunnelServerName t) = Inr cfg"
    and "dial \<lparr> ReadBufferSize = 100 * 1024, WriteBufferSize = 100 * 1024,
                 TLSClientConfig = cfg, NetDialLocalAddr = localAddr, Proxy = proxyURL \<rparr>
              (TrimSuffix (Tunnel t) ''/'' @ ''/api/v1/edgedevice/connection/ping'') = r"
  shows "fst (TestConnection tls dial proxyURL localAddr t) =
     (case dresp r of
        None \<Rightarrow> Panics
      | Some resp \<Rightarrow> if StatusCode resp = 200 then Returns None else Returns (derr r))"
  using assms
  by (auto simp: TestConnection_def Let_def relay_scheme_test_never_holds split: option.splits)

text \<open>
  Claim C2. For every outcome of the bootstrap dial, \<^verbatim>\<open>TestConnection\<close> reads only the
  status of the response: 200 gives success, any other outcome, also a dial error with
  no HTTP response, returns the dial error without fault.
  The code faults on a dial error that carries no response: \<^verbatim>\<open>resp\<close> is nil and
  \<^verbatim>\<open>resp.StatusCode\<close> is read.
\<close>

theorem TestConnection_panics_without_response:
  "fst (TestConnection tlsOk dialRefused None ''10.0.0.1'' (InitializeTunnelClient ''h'' ''x:8080''))
     = Panics"
  by (simp add: TestConnection_def InitializeTunnelClient_def HasPrefix_def TrimSuffix_def
      HasSuffix_def tlsOk_def dialRefused_def Let_def)


section \<open>Request framer: encoding an id and reading it back\<close>

text \<open>
  The formatter and the scanner agree on the digits: the digits written for \<open>u\<close> parse
  back to \<open>u\<close>, and an id below \<open>16 ^ 4\<close> fills exactly the four columns of the field.
\<close>

lemma sint_word_of_int_small:
  assumes "- (2 ^ (LENGTH('a) - 1)) \<le> i" and "i < 2 ^ (LENGTH('a) - 1)"
  shows "sint (word_of_int i :: 'a::len word) = i"
  using assms by (simp add: sint_sbintrunc' signed_take_bit_int_eq_self)

lemma hexDigit_ldigits:
  assumes "u < 16"
  shows "hexDigit (ldigits ! u) = Some u"
proof -
  from assms have "u = 0 \<or> u = 1 \<or> u = 2 \<or> u = 3 \<or> u = 4 \<or> u = 5 \<or> u = 6 \<or> u = 7 \<or>
      u = 8 \<or> u = 9 \<or> u = 10 \<or> u = 11 \<or> u = 12 \<or> u = 13 \<or> u = 14 \<or> u = 15"
    by arith
  then show ?thesis
    by (elim disjE) (simp_all add: ldigits_def hexDigit_def)
qed

lemma ParseHex_append:
  "ParseHex (xs @ ys) n = (case ParseHex xs n of None \<Rightarrow> None | Some m \<Rightarrow> ParseHex ys m)"
  by (induction xs arbitrary: n) (auto split: option.splits)

lemma ParseHex_fmtHex:
  "ParseHex (fmtHex u) n = Some (n * 16 ^ length (fmtHex u) + u)"
proof (induction u arbitrary: n rule: fmtHex.induct)
  case (1 u)
  show ?case
  proof (cases "16 \<le> u")
    case False
    then show ?thesis
      by (simp add: fmtHex.simps [of u] hexDigit_ldigits)
  next
    case True
    have d: "hexDigit (ldigits ! (u mod 16)) = Some (u mod 16)"
      by (simp add: hexDigit_ldigits)
    have "ParseHex (fmtHex u) n =
        Some ((n * 16 ^ length (fmtHex (u div 16)) + u div 16) * 16 + u mod 16)"
      using True "1.IH" [OF True, of n] d
      by (simp add: fmtHex.simps [of u] ParseHex_append)
    moreover have "length (fmtHex u) = Suc (length (fmtHex (u div 16)))"
      using True by (simp add: fmtHex.simps [of u])
    ultimately show ?thesis
      by (simp add: algebra_simps)
  qed
qed

lemma isHexDigit_fmtHex: "c \<in> set (fmtHex u) \<Longrightarrow> isHexDigit c"
proof (induction u rule: fmtHex.induct)
  case (1 u)
  show ?case
  proof (cases "16 \<le> u")
    case False
    with "1.prems" show ?thesis
      by (simp add: fmtHex.simps [of u] isHexDigit_def hexDigit_ldigits)
  next
    case True
    with "1.prems" "1.IH" show ?thesis
      by (auto simp: fmtHex.simps [of u] isHexDigit_def hexDigit_ldigits)
  qed
qed

lemma length_fmtHex:
  "u < 16 ^ k \<Longrightarrow> 0 < k \<Longrightarrow> length (fmtHex u) \<le> k"
proof (induction u arbitrary: k rule: fmtHex.induct)
  case (1 u)
  show ?case
  proof (cases "16 \<le> u")
    case False
    with "1.prems" show ?thesis
      by (simp add: fmtHex.simps [of u])
  next
    case True
    from "1.prems" obtain j where k: "k = Suc j"
      by (cases k) auto
    with True "1.prems" have j: "0 < j"
      by (cases j) auto
    from "1.prems" k have "u div 16 < 16 ^ j"
      by (simp add: less_mult_imp_div_less mult.commute)
    from "1.IH" [OF True this j] True k show ?thesis
      by (simp add: fmtHex.simps [of u])
  qed
qed

lemma fmtHex_nonempty: "fmtHex u \<noteq> []"
  by (simp add: fmtHex.simps [of u])


lemma ParseHex_zeros: "ParseHex (replicate k (CHR ''0'')) 0 = Some 0"
  by (induction k) (simp_all add: hexDigit_def)

lemma isHexDigit_zero: "isHexDigit (CHR ''0'')"
  by (simp add: isHexDigit_def hexDigit_def)

lemma isHexDigit_ascii: "isHexDigit c \<Longrightarrow> of_char c < (128 :: nat)"
  by (auto simp: isHexDigit_def hexDigit_def Let_def split: if_splits)

lemma ReadRune_ascii:
  "of_char c < (128 :: nat) \<Longrightarrow> ReadRune (c # cs) past = GotRune (of_char c) 1 1"
  by (simp add: ReadRune_def)

lemma hexRune_of_char: "isHexDigit c \<Longrightarrow> hexRune (of_char c)"
  by (simp add: hexRune_def isHexDigit_ascii)

lemma hex_digit_not_blank_or_sign:
  assumes "isHexDigit c"
  shows "of_char c \<noteq> (0x0A :: nat)" and "\<not> isSpace (of_char c)"
    and "of_char c \<noteq> (0x2D :: nat)" and "of_char c \<noteq> (0x2B :: nat)"
    and "c \<noteq> CHR ''-''" and "c \<noteq> CHR ''+''"
  using assms by (auto simp: isHexDigit_def hexDigit_def isSpace_def Let_def split: if_splits)

lemma acceptDigits_hex:
  assumes "\<forall>c \<in> set ds. isHexDigit c" and "pos \<le> got"
  shows "acceptDigits None tok ds pos got =
     Inr (tok @ ds, [], pos + length ds, max got (pos + length ds))"
  using assms
proof (induction ds arbitrary: tok pos got)
  case Nil
  then show ?case
    by (simp add: acceptDigits.simps [of None tok "[]"] ReadRune_def)
next
  case (Cons c cs)
  then have c: "isHexDigit c" and cs: "\<forall>c \<in> set cs. isHexDigit c"
    by simp_all
  have rd: "ReadRune (c # cs) None = GotRune (of_char c) 1 1"
    using c by (simp add: ReadRune_ascii isHexDigit_ascii)
  have "acceptDigits None tok (c # cs) pos got =
      acceptDigits None (tok @ [c]) cs (pos + 1) (max got (pos + 1))"
    using hexRune_of_char [OF c]
    by (simp add: acceptDigits.simps [of None tok "c # cs"] rd)
  also have "\<dots> = Inr ((tok @ [c]) @ cs, [], (pos + 1) + length cs,
      max (max got (pos + 1)) ((pos + 1) + length cs))"
    by (rule Cons.IH [OF cs]) simp
  finally show ?case
    by (simp add: max_def)
qed

lemma id_field:
  assumes "u < 65536"
  shows "length (zeroPad 4 (fmtHex u)) = 4"
    and "\<forall>c \<in> set (zeroPad 4 (fmtHex u)). isHexDigit c"
    and "ParseHex (zeroPad 4 (fmtHex u)) 0 = Some u"
proof -
  have "u < 16 ^ 4"
    using assms by simp
  then have len: "length (fmtHex u) \<le> 4"
    by (rule length_fmtHex) simp
  then show "length (zeroPad 4 (fmtHex u)) = 4"
    by (simp add: zeroPad_def)
  show "\<forall>c \<in> set (zeroPad 4 (fmtHex u)). isHexDigit c"
    by (auto simp: zeroPad_def isHexDigit_zero isHexDigit_fmtHex)
  show "ParseHex (zeroPad 4 (fmtHex u)) 0 = Some u"
    by (simp add: zeroPad_def ParseHex_append ParseHex_zeros ParseHex_fmtHex)
qed

lemma Fscanf_04x_digits:
  assumes len: "length ds = 4" and hex: "\<forall>c \<in> set ds. isHexDigit c"
    and val: "ParseHex ds 0 = Some n"
  shows "Fscanf_04x \<lparr> rdata = ds @ p, rerr = e \<rparr> =
     (if n \<le> 32767 then Inr (int n, 4)
      else Inl (ScanError (''integer overflow on token '' @ ds)))"
proof -
  from len obtain c cs where ds: "ds = c # cs"
    by (cases ds) auto
  with hex have c: "isHexDigit c"
    by simp
  note nb = hex_digit_not_blank_or_sign [OF c]
  have rd: "ReadRune ds None = GotRune (of_char c) 1 1"
    using c by (simp add: ds ReadRune_ascii isHexDigit_ascii)
  have skip: "SkipSpace None ds 0 0 = Inr (ds, 0, Suc 0)"
    using nb by (simp add: SkipSpace.simps [of None ds] rd)
  have sign: "acceptSign None ds 0 (Suc 0) = Inr ([], ds, 0, Suc 0)"
    using nb by (simp add: acceptSign_def rd)
  have num: "scanNumber None [] ds 0 (Suc 0) = Inr (ds, [], 4, 4)"
    using hexRune_of_char [OF c] acceptDigits_hex [OF hex, of 0 "Suc 0" "[]"] len
    by (simp add: scanNumber_def rd)
  have int: "scanInt16 ds =
     (if n \<le> 32767 then Inr (int n)
      else Inl (ScanError (''integer overflow on token '' @ ds)))"
    using nb val by (simp add: scanInt16_def ds Let_def)
  have lim: "take 4 (ds @ p) = ds"
    using len by simp
  show ?thesis
    using len by (simp add: Fscanf_04x_def lim skip sign num int Let_def)
qed

lemma Fscanf_04x_0001:
  "Fscanf_04x \<lparr> rdata = ''0001'' @ p, rerr = e \<rparr> = Inr (1, 4)"
  using Fscanf_04x_digits [of "''0001''" 1 p e]
  by (simp add: isHexDigit_def hexDigit_def)

lemma Fscanf_04x_8000:
  "Fscanf_04x \<lparr> rdata = ''8000'' @ p, rerr = e \<rparr> =
     Inl (ScanError ''integer overflow on token 8000'')"
  using Fscanf_04x_digits [of "''8000''" 32768 p e]
  by (simp add: isHexDigit_def hexDigit_def)

lemma fmt04x_nonneg:
  assumes "0 \<le> i" and "i < 2 ^ 63"
  shows "fmt04x (word_of_int i) = zeroPad 4 (fmtHex (nat i))"
proof -
  have "sint (word_of_int i :: 64 word) = i"
    using assms by (simp add: sint_word_of_int_small)
  with assms show ?thesis
    by (simp add: fmt04x_def Let_def)
qed

lemma fmt04x_32768: "fmt04x 32768 = ''8000''"
  by (simp add: fmt04x_def zeroPad_def Let_def fmtHex.simps ldigits_def)

lemma fmt04x_1: "fmt04x 1 = ''0001''"
  by (simp add: fmt04x_def zeroPad_def Let_def fmtHex.simps ldigits_def numeral_3_eq_3)

text \<open>
  Claim C5, as stated: for every id in [0, 65535] and every payload of at most 100 MiB,
  the frame made of the four hexadecimal digits of the id and the payload is read back
  by the inbound parser as the same id and payload.
  It fails for the id 32768: the parser scans into a signed 16-bit integer and reports
  an overflow on the token \<^verbatim>\<open>8000\<close>. It also fails for a payload of exactly 100 MiB: the
  frame is four bytes longer than the read limit set on the connection, and the message
  is not delivered.
\<close>

theorem frame_round_trip_fails:
  "fst (nextRequest ((ws (newConnection quietWs))
        \<lparr>incoming := [Message BinaryMessage \<lparr> rdata = encodeFrame 32768 ''x'', rerr = None \<rparr>]\<rparr>))
     = Inl (ScanError ''integer overflow on token 8000'') \<and>
   fst (nextRequest ((ws (newConnection quietWs))
        \<lparr>incoming := [Message BinaryMessage
            \<lparr> rdata = encodeFrame 1 (replicate (100 * 1024 * 1024) (CHR ''x'')), rerr = None \<rparr>]\<rparr>))
     = Inl ErrReadLimit"
  using Fscanf_04x_8000 [of "''x''" None]
  by (simp add: nextRequest_def NextReader_def newConnection_def quietWs_def encodeFrame_def
      fmt04x_32768 fmt04x_1 readRequest_def BinaryMessage_def)

text \<open>
  Claim C5, amended: for every id in [0, 32767] and every payload \<open>p\<close> with
  \<open>4 + |p|\<close> at most 100 MiB (the read limit set by the dial loop counts the four bytes of
  the id), the id is written as exactly four characters, and the frame is read back
  from a connection of the dial loop as the same id and the same payload.
\<close>

theorem frame_round_trip:
  assumes "0 \<le> i" and "i \<le> 32767" and "4 + length p \<le> 100 * 1024 * 1024"
  shows "length (fmt04x (word_of_int i)) = 4 \<and>
     nextRequest ((ws (newConnection w))
        \<lparr>incoming := [Message BinaryMessage \<lparr> rdata = encodeFrame (word_of_int i) p, rerr = None \<rparr>]\<rparr>)
       = (Inr (word_of_int i, p), (ws (newConnection w))\<lparr>incoming := []\<rparr>) \<and>
     sint (word_of_int i :: 16 word) = i"
proof -
  define u where "u = nat i"
  have u: "u < 65536" "u \<le> 32767" "int u = i"
    using assms by (simp_all add: u_def)
  have enc: "fmt04x (word_of_int i) = zeroPad 4 (fmtHex u)"
    using assms by (simp add: fmt04x_nonneg u_def)
  note f = id_field [OF u(1)]
  have scan: "Fscanf_04x \<lparr> rdata = zeroPad 4 (fmtHex u) @ p, rerr = None \<rparr> = Inr (i, 4)"
    using Fscanf_04x_digits [OF f, of p None] u by simp
  have rd: "readRequest \<lparr> rdata = zeroPad 4 (fmtHex u) @ p, rerr = None \<rparr> = Inr (word_of_int i, p)"
    using f(1) by (simp add: readRequest_def scan)
  have "sint (word_of_int i :: 16 word) = i"
    using assms by (simp add: sint_word_of_int_small)
  moreover have "nextRequest ((ws (newConnection w))
        \<lparr>incoming := [Message BinaryMessage \<lparr> rdata = encodeFrame (word_of_int i) p, rerr = None \<rparr>]\<rparr>)
       = (Inr (word_of_int i, p), (ws (newConnection w))\<lparr>incoming := []\<rparr>)"
    using assms(3) f(1)
    by (simp add: nextRequest_def NextReader_def newConnection_def encodeFrame_def enc rd)
  ultimately show ?thesis
    using f(1) by (simp add: enc)
qed

theorem frame_round_trip_witness:
  "(0::int) \<le> 1 \<and> (1::int) \<le> 32767 \<and> 4 + length ''GET /'' \<le> 100 * 1024 * 1024 \<and>
   length (fmt04x 1) = 4 \<and>
   nextRequest ((ws (newConnection quietWs))
        \<lparr>incoming := [Message BinaryMessage \<lparr> rdata = encodeFrame 1 ''GET /'', rerr = None \<rparr>]\<rparr>)
     = (Inr (1, ''GET /''), (ws (newConnection quietWs))\<lparr>incoming := []\<rparr>) \<and>
   sint (1 :: 16 word) = 1"
  using frame_round_trip [of 1 "''GET /''" quietWs]
  by simp

text \<open>The ids of the upper half of the claimed range are all rejected.\<close>

lemma frame_high_id_rejected:
  assumes "32768 \<le> i" and "i \<le> 65535"
  shows "fst (nextRequest ((ws (newConnection w))
        \<lparr>incoming := [Message BinaryMessage \<lparr> rdata = encodeFrame (word_of_int i) p, rerr = None \<rparr>]\<rparr>))
     = Inl (if 4 + length p \<le> 100 * 1024 * 1024
            then ScanError (''integer overflow on token '' @ fmt04x (word_of_int i))
            else ErrReadLimit)"
proof -
  define u where "u = nat i"
  have u: "u < 65536" "\<not> u \<le> 32767"
    using assms by (simp_all add: u_def)
  have enc: "fmt04x (word_of_int i) = zeroPad 4 (fmtHex u)"
    using assms by (simp add: fmt04x_nonneg u_def)
  note f = id_field [OF u(1)]
  have scan: "Fscanf_04x \<lparr> rdata = zeroPad 4 (fmtHex u) @ p, rerr = None \<rparr> =
      Inl (ScanError (''integer overflow on token '' @ zeroPad 4 (fmtHex u)))"
    using Fscanf_04x_digits [OF f, of p None] u by simp
  show ?thesis
    using f(1)
    by (simp add: nextRequest_def NextReader_def newConnection_def encodeFrame_def enc
        readRequest_def scan)
qed



section \<open>What the pumps leave unchanged\<close>

text \<open>
  The request pump and the response pumps change nothing of the client but what its
  two channels hold, and make no tunnel dial.
\<close>

lemma sameClient_iff:
  "sameClient t t' =
    (TunnelServerName t' = TunnelServerName t \<and> Tunnel t' = Tunnel t \<and> DestURL t' = DestURL t \<and>
     LocalRelayServer t' = LocalRelayServer t \<and> Timeout t' = Timeout t \<and>
     Connected t' = Connected t \<and> Dialer t' = Dialer t \<and> conn t' = conn t \<and>
     retryOnFailCount t' = retryOnFailCount t)"
  by (cases t, cases t') (auto simp: sameClient_def)

lemma sameClient_refl: "sameClient t t"
  by (simp add: sameClient_iff)

lemma sameClient_trans: "sameClient t t1 \<Longrightarrow> sameClient t1 t2 \<Longrightarrow> sameClient t t2"
  by (simp add: sameClient_iff)

lemma sameClient_exitCheck: "sameClient t (exitCheck t)"
  by (simp add: sameClient_iff exitCheck_def split: prod.splits)

lemma dialLocalConnection_frame:
  "tun (snd (dialLocalConnection env s)) = tun s \<and>
   tunnelDials (world (snd (dialLocalConnection env s))) = tunnelDials (world s)"
  by (simp add: dialLocalConnection_def Let_def split: sum.splits)

lemma refreshLocalConnection_frame:
  "tun (snd (refreshLocalConnection env host force s)) = tun s \<and>
   tunnelDials (world (snd (refreshLocalConnection env host force s))) = tunnelDials (world s)"
  by (simp add: refreshLocalConnection_def Let_def dialLocalConnection_frame split: option.splits)

lemma writeLoop_frame:
  "tun (snd (writeLoop env req host tries s)) = tun s \<and>
   tunnelDials (world (snd (writeLoop env req host tries s))) = tunnelDials (world s)"
proof (induction env req host tries s rule: writeLoop.induct)
  case (1 env req host tries s)
  show ?case
  proof (cases "tries \<le> 3")
    case False
    then show ?thesis by (simp add: writeLoop.simps)
  next
    case le: True
    show ?thesis
    proof (cases "localConnection (wsc s)")
      case None
      with le show ?thesis by (simp add: writeLoop.simps)
    next
      case (Some c)
      define s1 where "s1 = s\<lparr>world := (world s)\<lparr>writes := writes (world s) + 1\<rparr>\<rparr>"
      show ?thesis
      proof (cases "ConnWrite env (writes (world s)) c req")
        case None
        with le Some show ?thesis by (simp add: writeLoop.simps)
      next
        case werr: (Some e)
        obtain r s2 where rf: "refreshLocalConnection env host True s1 = (r, s2)"
          by (cases "refreshLocalConnection env host True s1")
        have s2: "tun s2 = tun s \<and> tunnelDials (world s2) = tunnelDials (world s)"
          using refreshLocalConnection_frame [of env host True s1] rf by (simp add: s1_def)
        show ?thesis
        proof (cases r)
          case None
          have "tun (snd (writeLoop env req host (tries + 1) s2)) = tun s2 \<and>
            tunnelDials (world (snd (writeLoop env req host (tries + 1) s2))) = tunnelDials (world s2)"
            using "1.IH" [OF le Some s1_def werr rf [symmetric]] None by simp
          with le Some werr rf None s2 show ?thesis
            by (simp add: writeLoop.simps [of env req host tries s] s1_def)
        next
          case (Some e')
          with le \<open>localConnection (wsc s) = Some c\<close> werr rf s2 show ?thesis
            by (simp add: writeLoop.simps [of env req host tries s] s1_def)
        qed
      qed
    qed
  qed
qed

lemma processRequest_frame:
  "sameClient (tun s) (tun (snd (processRequest env rid req s))) \<and>
   tunnelDials (world (snd (processRequest env rid req s))) = tunnelDials (world s)"
proof -
  obtain r s1 where rf: "refreshLocalConnection env (LocalRelayServer (tun s)) False s = (r, s1)"
    by (cases "refreshLocalConnection env (LocalRelayServer (tun s)) False s")
  have s1: "tun s1 = tun s \<and> tunnelDials (world s1) = tunnelDials (world s)"
    using refreshLocalConnection_frame [of env "LocalRelayServer (tun s)" False s] rf by simp
  obtain x s2 where wl: "writeLoop env req (LocalRelayServer (tun s)) 1 s1 = (x, s2)"
    by (cases "writeLoop env req (LocalRelayServer (tun s)) 1 s1")
  have s2: "tun s2 = tun s \<and> tunnelDials (world s2) = tunnelDials (world s)"
    using writeLoop_frame [of env req "LocalRelayServer (tun s)" 1 s1] wl s1 by simp
  show ?thesis
    using rf wl s1 s2
    by (simp add: processRequest_def Let_def sameClient_iff split: option.splits exec.splits)
qed

lemma writeResponseMessage_frame:
  "tun (writeResponseMessage env rid buf s) = tun s \<and>
   tunnelDials (world (writeResponseMessage env rid buf s)) = tunnelDials (world s)"
  by (simp add: writeResponseMessage_def Let_def split: option.splits)

lemma responseIteration_frame:
  "sameClient (tun s) (tun (snd (snd (responseIteration env host (rid, s))))) \<and>
   tunnelDials (world (snd (snd (responseIteration env host (rid, s))))) = tunnelDials (world s)"
proof -
  obtain got ch where tr: "try_recv (requestSentChan (tun s)) = (got, ch)"
    by (cases "try_recv (requestSentChan (tun s))")
  let ?s1 = "s\<lparr>tun := (tun s)\<lparr>requestSentChan := ch\<rparr>\<rparr>"
  obtain r s2 where rf: "refreshLocalConnection env host False ?s1 = (r, s2)"
    by (cases "refreshLocalConnection env host False ?s1")
  have "tun s2 = (tun s)\<lparr>requestSentChan := ch\<rparr> \<and> tunnelDials (world s2) = tunnelDials (world s)"
    using refreshLocalConnection_frame [of env host False ?s1] rf by simp
  with tr rf show ?thesis
    by (cases got)
       (auto simp: responseIteration_def exitCheckS_def exitCheck_def writeResponseMessage_frame
             sameClient_iff Let_def split: option.splits prod.splits)
qed

lemma pumpPass_frame:
  "sameClient (tun s) (tun (snd (pumpPass env i s))) \<and>
   tunnelDials (world (snd (pumpPass env i s))) = tunnelDials (world s)"
proof (cases i)
  case 0
  with responseIteration_frame [of s env "pumpHost (responder s)" "pumpId (responder s)"]
  show ?thesis
    by (auto simp: pumpPass_def split: prod.splits)
next
  case (Suc j)
  show ?thesis
  proof (cases "j < length (olderPumps (world s))")
    case False
    with Suc show ?thesis
      by (simp add: pumpPass_def sameClient_refl)
  next
    case True
    obtain c p where cp: "olderPumps (world s) ! j = (c, p)"
      by (cases "olderPumps (world s) ! j")
    from responseIteration_frame [of "s\<lparr>wsc := c\<rparr>" env "pumpHost p" "pumpId p"] Suc True cp
    show ?thesis
      by (auto simp: pumpPass_def split: prod.splits)
  qed
qed

lemma runPumps_frame:
  "sameClient (tun s) (tun (snd (runPumps env order s))) \<and>
   tunnelDials (world (snd (runPumps env order s))) = tunnelDials (world s)"
proof (induction order arbitrary: s)
  case Nil
  show ?case by (simp add: sameClient_refl)
next
  case (Cons i rest)
  obtain r s1 where pp: "pumpPass env i s = (r, s1)"
    by (cases "pumpPass env i s")
  with pumpPass_frame [of s env i] Cons.IH [of s1] show ?case
    by (cases r) (auto intro: sameClient_trans)
qed

lemma yield_frame:
  "sameClient (tun s) (tun (snd (yield env s))) \<and>
   tunnelDials (world (snd (yield env s))) = tunnelDials (world s)"
  using runPumps_frame [of "s\<lparr>world := (world s)\<lparr>yields := Suc (yields (world s))\<rparr>\<rparr>" env]
  by (simp add: yield_def)

lemma waitingSend_frame:
  "sameClient (tun s) (tun (snd (waitingSend env s))) \<and>
   tunnelDials (world (snd (waitingSend env s))) = tunnelDials (world s)"
proof -
  define i where "i = (if Taker env (yields (world s)) \<le> length (olderPumps (world s))
      then Taker env (yields (world s)) else 0)"
  define s2 where "s2 = s\<lparr>world := (world s)\<lparr>yields := Suc (yields (world s))\<rparr>\<rparr>"
  obtain x s3 where pp: "pumpPass env i s2 = (x, s3)"
    by (cases "pumpPass env i s2")
  have "sameClient (tun s) (tun s3) \<and> tunnelDials (world s3) = tunnelDials (world s)"
    using pumpPass_frame [of s2 env i] pp by (simp add: s2_def)
  with pp show ?thesis
    unfolding waitingSend_def Let_def i_def [symmetric] s2_def [symmetric]
    by (cases x) (auto simp: sameClient_iff split: option.splits)
qed

lemma forward_frame:
  "sameClient (tun s) (tun (snd (forward env rid req s))) \<and>
   tunnelDials (world (snd (forward env rid req s))) = tunnelDials (world s)"
proof -
  obtain r s1 where pr: "processRequest env rid req s = (r, s1)"
    by (cases "processRequest env rid req s")
  have s1: "sameClient (tun s) (tun s1) \<and> tunnelDials (world s1) = tunnelDials (world s)"
    using processRequest_frame [of s env rid req] pr by simp
  with pr waitingSend_frame [of s1 env] show ?thesis
    by (cases r) (auto simp: forward_def intro: sameClient_trans)
qed

lemma requestLoop_frame:
  "sameClient (tun s) (tun (snd (requestLoop env s))) \<and>
   tunnelDials (world (snd (requestLoop env s))) = tunnelDials (world s)"
proof (induction env s rule: requestLoop.induct)
  case (1 env s)
  obtain x w where nr: "nextRequest (ws (wsc s)) = (x, w)"
    by (cases "nextRequest (ws (wsc s))")
  let ?s1 = "s\<lparr>wsc := (wsc s)\<lparr>ws := w\<rparr>\<rparr>"
  show ?case
  proof (cases x)
    case (Inl e)
    with nr show ?thesis
      by (simp add: requestLoop.simps [of env s] sameClient_refl)
  next
    case (Inr y)
    obtain rid request where y: "y = (rid, request)"
      by (cases y)
    show ?thesis
    proof (cases "0 < length request")
      case False
      obtain x3 s3 where yl: "yield env ?s1 = (x3, s3)"
        by (cases "yield env ?s1")
      have f3: "sameClient (tun s) (tun s3) \<and> tunnelDials (world s3) = tunnelDials (world s)"
        using yield_frame [of ?s1 env] yl by simp
      show ?thesis
      proof (cases x3)
        case (Returns u)
        have "sameClient (tun s3) (tun (snd (requestLoop env s3))) \<and>
          tunnelDials (world (snd (requestLoop env s3))) = tunnelDials (world s3)"
          using "1.IH"(2) [OF nr [symmetric] Inr y [symmetric] False yl [symmetric] Returns] .
        with nr Inr y False yl Returns f3 show ?thesis
          by (auto simp: requestLoop.simps [of env s] intro: sameClient_trans)
      qed (use nr Inr y False yl f3 in \<open>simp_all add: requestLoop.simps [of env s]\<close>)
    next
      case True
      obtain r s2 where fw: "forward env rid request ?s1 = (r, s2)"
        by (cases "forward env rid request ?s1")
      have f2: "sameClient (tun s) (tun s2) \<and> tunnelDials (world s2) = tunnelDials (world s)"
        using forward_frame [of ?s1 env rid request] fw by simp
      show ?thesis
      proof (cases r)
        case (Returns err)
        obtain x3 s3 where yl: "yield env s2 = (x3, s3)"
          by (cases "yield env s2")
        have f3: "sameClient (tun s) (tun s3) \<and> tunnelDials (world s3) = tunnelDials (world s)"
          using yield_frame [of s2 env] yl f2 by (auto intro: sameClient_trans)
        show ?thesis
        proof (cases x3)
          case u: (Returns u)
          have "sameClient (tun s3) (tun (snd (requestLoop env s3))) \<and>
            tunnelDials (world (snd (requestLoop env s3))) = tunnelDials (world s3)"
            using "1.IH"(1) [OF nr [symmetric] Inr y [symmetric] True fw [symmetric] Returns
                yl [symmetric] u] .
          with nr Inr y True fw Returns yl u f3 show ?thesis
            by (auto simp: requestLoop.simps [of env s] intro: sameClient_trans)
        qed (use nr Inr y True fw Returns yl f3 in \<open>simp_all add: requestLoop.simps [of env s]\<close>)
      qed (use nr Inr y True fw f2 in \<open>simp_all add: requestLoop.simps [of env s]\<close>)
    qed
  qed
qed

lemma handleRequests_frame:
  "sameClient (tun s) (tun (snd (handleRequests env s))) \<and>
   tunnelDials (world (snd (handleRequests env s))) = tunnelDials (world s)"
proof -
  let ?s0 = "s\<lparr>responder := \<lparr> pumpHost = LocalRelayServer (tun s), pumpId = 0 \<rparr>\<rparr>"
  obtain x s1 where yl: "yield env ?s0 = (x, s1)"
    by (cases "yield env ?s0")
  have f1: "sameClient (tun s) (tun s1) \<and> tunnelDials (world s1) = tunnelDials (world s)"
    using yield_frame [of ?s0 env] yl by simp
  obtain y s2 where rl: "requestLoop env s1 = (y, s2)"
    by (cases "requestLoop env s1")
  have f2: "sameClient (tun s) (tun s2) \<and> tunnelDials (world s2) = tunnelDials (world s)"
    using requestLoop_frame [of s1 env] rl f1 by (auto intro: sameClient_trans)
  from yl rl f1 f2 show ?thesis
    by (cases x; cases y) (simp_all add: handleRequests_def)
qed


section \<open>Local relay connector: what a forward does\<close>

text \<open>
  The connector never changes the relay host. A refresh that returns nil leaves a
  connection in the cache whenever the host is not empty.
\<close>

lemma dialLocalConnection_host:
  "LocalRelayServer (tun (snd (dialLocalConnection env s))) = LocalRelayServer (tun s)"
  by (simp add: dialLocalConnection_def Let_def split: sum.splits)

lemma refreshLocalConnection_host:
  "LocalRelayServer (tun (snd (refreshLocalConnection env host force s))) = LocalRelayServer (tun s)"
  by (simp add: refreshLocalConnection_def Let_def dialLocalConnection_host split: option.splits)

lemma dialLocalConnection_installs:
  assumes "dialLocalConnection env s = (None, s')" and "LocalRelayServer (tun s) \<noteq> ''''"
  shows "localConnection (wsc s') \<noteq> None"
  using assms by (auto simp: dialLocalConnection_def Let_def split: sum.splits)

lemma dialLocalConnection_keeps:
  assumes "localConnection (wsc s) \<noteq> None"
  shows "localConnection (wsc (snd (dialLocalConnection env s))) \<noteq> None"
  using assms by (auto simp: dialLocalConnection_def Let_def split: sum.splits)

lemma refreshLocalConnection_installs:
  assumes "LocalRelayServer (tun s) \<noteq> ''''" and "refreshLocalConnection env host force s = (None, s')"
  shows "localConnection (wsc s') \<noteq> None"
  using assms
  by (auto simp: refreshLocalConnection_def Let_def dest: dialLocalConnection_installs
      split: option.splits if_splits)

lemma writeLoop_no_panic:
  "LocalRelayServer (tun s) \<noteq> '''' \<Longrightarrow> localConnection (wsc s) \<noteq> None \<Longrightarrow>
   fst (writeLoop env req host tries s) \<noteq> Panics"
proof (induction env req host tries s rule: writeLoop.induct)
  case (1 env req host tries s)
  show ?case
  proof (cases "tries \<le> 3")
    case False
    then show ?thesis by (simp add: writeLoop.simps)
  next
    case le: True
    from "1.prems" obtain c where c: "localConnection (wsc s) = Some c" by auto
    define s1 where "s1 = s\<lparr>world := (world s)\<lparr>writes := writes (world s) + 1\<rparr>\<rparr>"
    show ?thesis
    proof (cases "ConnWrite env (writes (world s)) c req")
      case None
      with le c show ?thesis by (simp add: writeLoop.simps)
    next
      case werr: (Some e)
      obtain r s2 where rf: "refreshLocalConnection env host True s1 = (r, s2)"
        by (cases "refreshLocalConnection env host True s1")
      have h1: "LocalRelayServer (tun s1) \<noteq> ''''" using "1.prems" by (simp add: s1_def)
      show ?thesis
      proof (cases r)
        case None
        have a: "LocalRelayServer (tun s2) \<noteq> ''''"
          using refreshLocalConnection_host [of env host True s1] rf h1 by simp
        have b: "localConnection (wsc s2) \<noteq> None"
          using refreshLocalConnection_installs [OF h1] rf None by simp
        have "fst (writeLoop env req host (tries + 1) s2) \<noteq> Panics"
          using "1.IH" [OF le c s1_def werr rf [symmetric] _ a b] None by simp
        with le c werr rf None show ?thesis
          by (simp add: writeLoop.simps [of env req host tries s] s1_def)
      next
        case (Some e')
        with le c werr rf show ?thesis
          by (simp add: writeLoop.simps [of env req host tries s] s1_def)
      qed
    qed
  qed
qed

lemma processRequest_no_panic:
  assumes "LocalRelayServer (tun s) \<noteq> ''''"
  shows "fst (processRequest env rid req s) \<noteq> Panics"
proof -
  obtain r s1 where rf: "refreshLocalConnection env (LocalRelayServer (tun s)) False s = (r, s1)"
    by (cases "refreshLocalConnection env (LocalRelayServer (tun s)) False s")
  show ?thesis
  proof (cases r)
    case (Some e)
    with rf show ?thesis by (simp add: processRequest_def Let_def)
  next
    case None
    have a: "LocalRelayServer (tun s1) \<noteq> ''''"
      using refreshLocalConnection_host [of env "LocalRelayServer (tun s)" False s] rf assms by simp
    have b: "localConnection (wsc s1) \<noteq> None"
      using refreshLocalConnection_installs [OF assms] rf None by simp
    obtain x s2 where wl: "writeLoop env req (LocalRelayServer (tun s)) 1 s1 = (x, s2)"
      by (cases "writeLoop env req (LocalRelayServer (tun s)) 1 s1")
    have "x \<noteq> Panics"
      using writeLoop_no_panic [OF a b, of env req "LocalRelayServer (tun s)" 1] wl by simp
    with rf None wl show ?thesis
      by (auto simp: processRequest_def Let_def split: exec.splits option.splits)
  qed
qed

lemma processRequest_empty_host_panics:
  assumes "LocalRelayServer (tun s) = ''''" and "localConnection (wsc s) = None"
  shows "fst (processRequest env rid req s) = Panics"
  using assms
  by (simp add: processRequest_def refreshLocalConnection_def dialLocalConnection_def Let_def
      writeLoop.simps)


text \<open>
  Claim C10. If \<^verbatim>\<open>LocalRelayServer\<close> is the empty string, \<^verbatim>\<open>dialLocalConnection\<close> returns a
  nil error and installs no connection, so that a following non-empty inbound request
  makes \<^verbatim>\<open>processRequest\<close> call \<^verbatim>\<open>Write\<close> on a nil \<^verbatim>\<open>localConnection\<close> in its write
  loop; with a non-empty \<^verbatim>\<open>LocalRelayServer\<close> this nil dereference cannot be reached.
  The theorem has four parts: the dial with an empty host; the panic of
  \<^verbatim>\<open>processRequest\<close> when nothing is cached; the same panic seen from the request loop
  on a request with payload; and no panic of \<^verbatim>\<open>processRequest\<close>, whatever the relay
  answers, when the host is not empty.
\<close>

theorem empty_relay_host_nil_dereference:
  "(LocalRelayServer (tun s) = '''' \<longrightarrow> dialLocalConnection env s = (None, s)) \<and>
   (LocalRelayServer (tun s) = '''' \<and> localConnection (wsc s) = None \<longrightarrow>
      fst (processRequest env rid req s) = Panics) \<and>
   (LocalRelayServer (tun s) = '''' \<and> localConnection (wsc s) = None \<and>
    nextRequest (ws (wsc s)) = (Inr (rid, req), w) \<and> req \<noteq> [] \<longrightarrow>
      fst (requestLoop env s) = Panics) \<and>
   (LocalRelayServer (tun s) \<noteq> '''' \<longrightarrow> fst (processRequest env rid req s) \<noteq> Panics)"
proof (intro conjI impI)
  assume "LocalRelayServer (tun s) = ''''"
  then show "dialLocalConnection env s = (None, s)"
    by (simp add: dialLocalConnection_def)
next
  assume "LocalRelayServer (tun s) = '''' \<and> localConnection (wsc s) = None"
  then show "fst (processRequest env rid req s) = Panics"
    by (simp add: processRequest_empty_host_panics)
next
  assume h: "LocalRelayServer (tun s) = '''' \<and> localConnection (wsc s) = None \<and>
    nextRequest (ws (wsc s)) = (Inr (rid, req), w) \<and> req \<noteq> []"
  let ?s1 = "s\<lparr>wsc := (wsc s)\<lparr>ws := w\<rparr>\<rparr>"
  have "fst (processRequest env rid req ?s1) = Panics"
    using h by (simp add: processRequest_empty_host_panics)
  then obtain s2 where "processRequest env rid req ?s1 = (Panics, s2)"
    by (cases "processRequest env rid req ?s1") simp
  with h show "fst (requestLoop env s) = Panics"
    by (simp add: requestLoop.simps [of env s] forward_def)
next
  assume "LocalRelayServer (tun s) \<noteq> ''''"
  then show "fst (processRequest env rid req s) \<noteq> Panics"
    by (rule processRequest_no_panic)
qed

lemma nextRequest_oneRequest: "nextRequest oneRequest = (Inr (1, ''GET /''), quietWs)"
  using Fscanf_04x_0001 [of "''GET /''" None]
  by (simp add: nextRequest_def NextReader_def oneRequest_def quietWs_def readRequest_def
       BinaryMessage_def)

theorem empty_relay_host_nil_dereference_witness:
  "dialLocalConnection (relayWorld (\<lambda>k c. None) (\<lambda>k c r. None)) (relaySession '''' None oneRequest)
      = (None, relaySession '''' None oneRequest) \<and>
   fst (processRequest (relayWorld (\<lambda>k c. None) (\<lambda>k c r. None)) 1 ''GET /''
          (relaySession '''' None oneRequest)) = Panics \<and>
   fst (requestLoop (relayWorld (\<lambda>k c. None) (\<lambda>k c r. None)) (relaySession '''' None oneRequest))
      = Panics \<and>
   fst (processRequest (relayWorld (\<lambda>k c. None) (\<lambda>k c r. None)) 1 ''GET /''
          (relaySession ''127.0.0.1:8080'' None oneRequest)) \<noteq> Panics"
  using empty_relay_host_nil_dereference
          [of "relaySession '''' None oneRequest" "relayWorld (\<lambda>k c. None) (\<lambda>k c r. None)" 1 "''GET /''" quietWs]
        empty_relay_host_nil_dereference
          [of "relaySession ''127.0.0.1:8080'' None oneRequest" "relayWorld (\<lambda>k c. None) (\<lambda>k c r. None)" 1 "''GET /''" quietWs]
        nextRequest_oneRequest
  by (simp add: relaySession_def startSession_def InitializeTunnelClient_def)



text \<open>
  Claim C4. For every non-empty payload, \<^verbatim>\<open>processRequest\<close> attempts up to 3 writes of
  the payload, forcing a re-dial after each write error; if all 3 write attempts fail
  it surfaces an error to the caller, and the \<^verbatim>\<open>requestSentChan\<close> signal is emitted once
  per successfully forwarded non-empty request.
  The code does not surface the error: with a relay that accepts every dial and fails
  every write, the three writes fail, three re-dials succeed, the loop ends, the signal
  is sent and nil is returned.
\<close>

theorem processRequest_signals_after_three_failed_writes:
  "fst (processRequest (relayWorld (\<lambda>k c. None) (\<lambda>k c r. Some (OpError ''write: broken pipe'')))
          1 ''GET /'' (relaySession ''127.0.0.1:8080'' (Some \<lparr> fd = 3, peerClosed = False \<rparr>) quietWs))
     = Returns None \<and>
   requestSentChan (tun (snd (processRequest (relayWorld (\<lambda>k c. None) (\<lambda>k c r. Some (OpError ''write: broken pipe'')))
          1 ''GET /'' (relaySession ''127.0.0.1:8080'' (Some \<lparr> fd = 3, peerClosed = False \<rparr>) quietWs))))
     = Chan 1 1 \<and>
   world (snd (processRequest (relayWorld (\<lambda>k c. None) (\<lambda>k c r. Some (OpError ''write: broken pipe'')))
          1 ''GET /'' (relaySession ''127.0.0.1:8080'' (Some \<lparr> fd = 3, peerClosed = False \<rparr>) quietWs)))
     = no_calls\<lparr>dials := 3, probes := 1, writes := 3\<rparr>"
  by (simp add: processRequest_def refreshLocalConnection_def dialLocalConnection_def
      writeLoop.simps relayWorld_def relaySession_def startSession_def InitializeTunnelClient_def
      make_chan_def no_calls_def Let_def)

text \<open>
  The rest of claim C4 holds: a forward makes at most three writes, and a token is sent
  on \<^verbatim>\<open>requestSentChan\<close> exactly when the forward returns nil.
\<close>

lemma dialLocalConnection_writes:
  "writes (world (snd (dialLocalConnection env s))) = writes (world s)"
  by (simp add: dialLocalConnection_def Let_def split: sum.splits)

lemma refreshLocalConnection_writes:
  "writes (world (snd (refreshLocalConnection env host force s))) = writes (world s)"
  by (simp add: refreshLocalConnection_def Let_def dialLocalConnection_writes split: option.splits)

lemma writeLoop_writes:
  "writes (world (snd (writeLoop env req host tries s))) \<le> writes (world s) + (4 - tries)"
proof (induction env req host tries s rule: writeLoop.induct)
  case (1 env req host tries s)
  show ?case
  proof (cases "tries \<le> 3")
    case False
    then show ?thesis by (simp add: writeLoop.simps)
  next
    case le: True
    show ?thesis
    proof (cases "localConnection (wsc s)")
      case None
      with le show ?thesis by (simp add: writeLoop.simps)
    next
      case (Some c)
      define s1 where "s1 = s\<lparr>world := (world s)\<lparr>writes := writes (world s) + 1\<rparr>\<rparr>"
      show ?thesis
      proof (cases "ConnWrite env (writes (world s)) c req")
        case None
        with le Some show ?thesis by (simp add: writeLoop.simps)
      next
        case werr: (Some e)
        obtain r s2 where rf: "refreshLocalConnection env host True s1 = (r, s2)"
          by (cases "refreshLocalConnection env host True s1")
        have s2: "writes (world s2) = writes (world s) + 1"
          using refreshLocalConnection_writes [of env host True s1] rf by (simp add: s1_def)
        show ?thesis
        proof (cases r)
          case None
          have "writes (world (snd (writeLoop env req host (tries + 1) s2)))
              \<le> writes (world s2) + (4 - (tries + 1))"
            using "1.IH" [OF le Some s1_def werr rf [symmetric]] None by simp
          with le Some werr rf None s2 show ?thesis
            by (simp add: writeLoop.simps [of env req host tries s] s1_def)
        next
          case (Some e')
          with le \<open>localConnection (wsc s) = Some c\<close> werr rf s2 show ?thesis
            by (simp add: writeLoop.simps [of env req host tries s] s1_def)
        qed
      qed
    qed
  qed
qed

lemma processRequest_at_most_three_writes:
  "writes (world (snd (processRequest env rid req s))) \<le> writes (world s) + 3"
proof -
  obtain r s1 where rf: "refreshLocalConnection env (LocalRelayServer (tun s)) False s = (r, s1)"
    by (cases "refreshLocalConnection env (LocalRelayServer (tun s)) False s")
  have s1: "writes (world s1) = writes (world s)"
    using refreshLocalConnection_writes [of env "LocalRelayServer (tun s)" False s] rf by simp
  obtain x s2 where wl: "writeLoop env req (LocalRelayServer (tun s)) 1 s1 = (x, s2)"
    by (cases "writeLoop env req (LocalRelayServer (tun s)) 1 s1")
  have s2: "writes (world s2) \<le> writes (world s) + 3"
    using writeLoop_writes [of env req "LocalRelayServer (tun s)" 1 s1] wl s1 by simp
  show ?thesis
    using rf wl s1 s2
    by (simp add: processRequest_def Let_def split: option.splits exec.splits)
qed

lemma processRequest_signal:
  assumes "processRequest env rid req s = (r, s')"
  shows "(case r of
            Returns None \<Rightarrow> send (requestSentChan (tun s)) = Some (requestSentChan (tun s'))
          | _ \<Rightarrow> requestSentChan (tun s') = requestSentChan (tun s))"
proof -
  obtain e s1 where rf: "refreshLocalConnection env (LocalRelayServer (tun s)) False s = (e, s1)"
    by (cases "refreshLocalConnection env (LocalRelayServer (tun s)) False s")
  have s1: "tun s1 = tun s"
    using refreshLocalConnection_frame [of env "LocalRelayServer (tun s)" False s] rf by simp
  obtain x s2 where wl: "writeLoop env req (LocalRelayServer (tun s)) 1 s1 = (x, s2)"
    by (cases "writeLoop env req (LocalRelayServer (tun s)) 1 s1")
  have s2: "tun s2 = tun s"
    using writeLoop_frame [of env req "LocalRelayServer (tun s)" 1 s1] wl s1 by simp
  show ?thesis
    using assms rf wl s1 s2
    by (auto simp: processRequest_def Let_def split: option.splits exec.splits)
qed


text \<open>
  Claim C6. The liveness probe never returns a stale closed local socket as reusable:
  after the local relay closes the cached connection, the next forward either succeeds
  via re-dial or surfaces an error after 3 retries.
  The code does not detect the closed socket. Its probe reads into the empty slice
  \<^verbatim>\<open>one := []byte{}\<close>; on a connection made by \<^verbatim>\<open>net.Dial\<close> (line 383, the only
  connections the code caches) a read into an empty slice returns at once and reports no
  error, whether or not the peer has closed. On the session below, whose cached
  connection the relay has closed, the refresh returns nil with the closed connection
  still cached, and the forward writes to that connection and returns nil without any
  dial. The function's own comment ("checks if the cached connection is still valid or
  else creates and caches a new one") and its log text ("Lost local server connection,
  reconnecting...") say what the claim says.
\<close>

theorem probe_keeps_closed_connection:
  "refreshLocalConnection (relayWorld (\<lambda>k c. None) (\<lambda>k c r. None)) ''127.0.0.1:8080'' False
      (relaySession ''127.0.0.1:8080'' (Some \<lparr> fd = 3, peerClosed = True \<rparr>) quietWs)
     = (None, (relaySession ''127.0.0.1:8080'' (Some \<lparr> fd = 3, peerClosed = True \<rparr>) quietWs)
                \<lparr>world := no_calls\<lparr>probes := 1\<rparr>\<rparr>) \<and>
   fst (processRequest (relayWorld (\<lambda>k c. None) (\<lambda>k c r. None)) 1 ''GET /''
      (relaySession ''127.0.0.1:8080'' (Some \<lparr> fd = 3, peerClosed = True \<rparr>) quietWs)) = Returns None \<and>
   localConnection (wsc (snd (processRequest (relayWorld (\<lambda>k c. None) (\<lambda>k c r. None)) 1 ''GET /''
      (relaySession ''127.0.0.1:8080'' (Some \<lparr> fd = 3, peerClosed = True \<rparr>) quietWs))))
     = Some \<lparr> fd = 3, peerClosed = True \<rparr> \<and>
   world (snd (processRequest (relayWorld (\<lambda>k c. None) (\<lambda>k c r. None)) 1 ''GET /''
      (relaySession ''127.0.0.1:8080'' (Some \<lparr> fd = 3, peerClosed = True \<rparr>) quietWs)))
     = no_calls\<lparr>probes := 1, writes := 1\<rparr>"
  by (simp add: processRequest_def refreshLocalConnection_def dialLocalConnection_def
      writeLoop.simps relayWorld_def relaySession_def startSession_def InitializeTunnelClient_def
      make_chan_def no_calls_def Let_def)

text \<open>What the probe does, by the result of its read.\<close>

lemma refresh_probe_lost:
  assumes "localConnection (wsc s) = Some c" and "LocalRelayServer (tun s) \<noteq> ''''"
    and "lostConnection (ProbeRead env (probes (world s)) c)"
  shows "refreshLocalConnection env host False s =
     (case NetDial env (dials (world s)) (LocalRelayServer (tun s)) of
        Inl e \<Rightarrow> (Some e, s\<lparr>world := (world s)\<lparr>probes := probes (world s) + 1, dials := dials (world s) + 1\<rparr>\<rparr>)
      | Inr c' \<Rightarrow> (None, s\<lparr>world := (world s)\<lparr>probes := probes (world s) + 1, dials := dials (world s) + 1\<rparr>,
                          wsc := (wsc s)\<lparr>localConnection := Some c'\<rparr>\<rparr>))"
  using assms
  by (auto simp: refreshLocalConnection_def dialLocalConnection_def lostConnection_def Let_def
      split: sum.splits)

lemma refresh_probe_kept:
  assumes "localConnection (wsc s) = Some c"
    and "\<not> lostConnection (ProbeRead env (probes (world s)) c)"
  shows "refreshLocalConnection env host False s =
     (None, s\<lparr>world := (world s)\<lparr>probes := probes (world s) + 1\<rparr>\<rparr>)"
  using assms
  by (auto simp: refreshLocalConnection_def lostConnection_def Let_def split: option.splits)



section \<open>The pumps of a configured client\<close>

text \<open>
  With a relay host and a usable \<^verbatim>\<open>requestSentChan\<close> nothing in a session panics, and
  no send on the channel waits for ever: a send that finds the buffer full is completed
  as soon as a response pump has taken the token that is in the way. So every session
  of such a client comes to its end and gives control back to the dial loop.
\<close>

lemma try_recv_nothing: "try_recv ch = (False, ch') \<Longrightarrow> ch' = ch"
proof (cases ch)
  case NilChan
  then show "try_recv ch = (False, ch') \<Longrightarrow> ch' = ch" by simp
next
  case (Chan capacity n)
  then show "try_recv ch = (False, ch') \<Longrightarrow> ch' = ch" by (cases n) simp_all
qed

lemma usable_try_recv: "usable ch \<Longrightarrow> usable (snd (try_recv ch))"
proof (cases ch)
  case NilChan
  then show "usable ch \<Longrightarrow> usable (snd (try_recv ch))" by simp
next
  case (Chan capacity n)
  then show "usable ch \<Longrightarrow> usable (snd (try_recv ch))" by (cases n) (simp_all add: usable_def)
qed

lemma usable_send: "usable ch \<Longrightarrow> send ch = Some ch' \<Longrightarrow> usable ch'"
  by (cases ch) (auto simp: usable_def split: if_splits)

lemma send_after_recv:
  assumes "usable ch" and "send ch = None"
  shows "\<exists>ch'. send (snd (try_recv ch)) = Some ch' \<and> usable ch'"
proof (cases ch)
  case NilChan
  with assms show ?thesis by (simp add: usable_def)
next
  case (Chan capacity n)
  with assms show ?thesis by (cases n) (auto simp: usable_def split: if_splits)
qed

lemma responseIteration_configured:
  assumes "configured (tun s)"
  shows "fst (responseIteration env host (rid, s)) = Returns ()"
    and "requestSentChan (tun (snd (snd (responseIteration env host (rid, s))))) =
           snd (try_recv (requestSentChan (tun s)))"
proof -
  obtain got ch where tr: "try_recv (requestSentChan (tun s)) = (got, ch)"
    by (cases "try_recv (requestSentChan (tun s))")
  let ?s1 = "s\<lparr>tun := (tun s)\<lparr>requestSentChan := ch\<rparr>\<rparr>"
  obtain r s2 where rf: "refreshLocalConnection env host False ?s1 = (r, s2)"
    by (cases "refreshLocalConnection env host False ?s1")
  have t2: "tun s2 = (tun s)\<lparr>requestSentChan := ch\<rparr>"
    using refreshLocalConnection_frame [of env host False ?s1] rf by simp
  have h1: "LocalRelayServer (tun ?s1) \<noteq> ''''"
    using assms by (simp add: configured_def)
  have lc: "localConnection (wsc s2) \<noteq> None" if "r = None"
    using refreshLocalConnection_installs [OF h1] rf that by simp
  have same: "ch = requestSentChan (tun s)" if "\<not> got"
    using tr that by (simp add: try_recv_nothing)
  show "fst (responseIteration env host (rid, s)) = Returns ()"
    using tr rf lc
    by (cases got; cases r) (auto simp: responseIteration_def Let_def split: option.splits)
  show "requestSentChan (tun (snd (snd (responseIteration env host (rid, s))))) =
           snd (try_recv (requestSentChan (tun s)))"
    using tr rf t2 same
    by (cases got; cases r)
       (auto simp: responseIteration_def exitCheckS_def exitCheck_def writeResponseMessage_frame
             Let_def split: option.splits prod.splits)
qed

lemma configured_sameClient:
  assumes "sameClient t t'" and "LocalRelayServer t \<noteq> ''''" and "usable (requestSentChan t')"
  shows "configured t'"
  using assms by (simp add: configured_def sameClient_iff)

lemma pumpPass_configured:
  assumes c: "configured (tun s)"
  shows "fst (pumpPass env i s) = Returns ()"
    and "configured (tun (snd (pumpPass env i s)))"
    and "i \<le> length (olderPumps (world s)) \<Longrightarrow>
           requestSentChan (tun (snd (pumpPass env i s))) = snd (try_recv (requestSentChan (tun s)))"
proof -
  have host: "LocalRelayServer (tun s) \<noteq> ''''" and us: "usable (requestSentChan (tun s))"
    using c by (simp_all add: configured_def)
  have key: "fst (pumpPass env i s) = Returns () \<and>
     (requestSentChan (tun (snd (pumpPass env i s))) = snd (try_recv (requestSentChan (tun s))) \<or>
      \<not> i \<le> length (olderPumps (world s)) \<and>
        requestSentChan (tun (snd (pumpPass env i s))) = requestSentChan (tun s))"
  proof (cases i)
    case 0
    with responseIteration_configured [OF c, of env "pumpHost (responder s)" "pumpId (responder s)"]
    show ?thesis
      by (auto simp: pumpPass_def split: prod.splits)
  next
    case (Suc j)
    show ?thesis
    proof (cases "j < length (olderPumps (world s))")
      case False
      with Suc show ?thesis
        by (simp add: pumpPass_def)
    next
      case True
      obtain cn p where cp: "olderPumps (world s) ! j = (cn, p)"
        by (cases "olderPumps (world s) ! j")
      have "configured (tun (s\<lparr>wsc := cn\<rparr>))"
        using c by simp
      from responseIteration_configured [OF this, of env "pumpHost p" "pumpId p"] Suc True cp
      show ?thesis
        by (auto simp: pumpPass_def split: prod.splits)
    qed
  qed
  from key show "fst (pumpPass env i s) = Returns ()"
    by simp
  from key show "i \<le> length (olderPumps (world s)) \<Longrightarrow>
      requestSentChan (tun (snd (pumpPass env i s))) = snd (try_recv (requestSentChan (tun s)))"
    by auto
  from key have "usable (requestSentChan (tun (snd (pumpPass env i s))))"
    using us usable_try_recv [OF us] by auto
  with pumpPass_frame [of s env i] host show "configured (tun (snd (pumpPass env i s)))"
    by (auto intro: configured_sameClient)
qed

lemma runPumps_configured:
  "configured (tun s) \<Longrightarrow>
   fst (runPumps env order s) = Returns () \<and> configured (tun (snd (runPumps env order s)))"
proof (induction order arbitrary: s)
  case Nil
  then show ?case by simp
next
  case (Cons i rest)
  obtain r s1 where pp: "pumpPass env i s = (r, s1)"
    by (cases "pumpPass env i s")
  with pumpPass_configured(1,2) [OF Cons.prems, of env i]
  have "r = Returns ()" and "configured (tun s1)"
    by simp_all
  with pp Cons.IH [of s1] show ?case
    by simp
qed

lemma yield_configured:
  assumes "configured (tun s)"
  shows "fst (yield env s) = Returns ()" and "configured (tun (snd (yield env s)))"
  using runPumps_configured [of "s\<lparr>world := (world s)\<lparr>yields := Suc (yields (world s))\<rparr>\<rparr>" env]
    assms
  by (simp_all add: yield_def)

lemma writeLoop_outcome:
  "fst (writeLoop env req host tries s) \<noteq> Blocks \<and> fst (writeLoop env req host tries s) \<noteq> Exits"
proof (induction env req host tries s rule: writeLoop.induct)
  case (1 env req host tries s)
  show ?case
  proof (cases "tries \<le> 3")
    case False
    then show ?thesis by (simp add: writeLoop.simps)
  next
    case le: True
    show ?thesis
    proof (cases "localConnection (wsc s)")
      case None
      with le show ?thesis by (simp add: writeLoop.simps)
    next
      case (Some c)
      define s1 where "s1 = s\<lparr>world := (world s)\<lparr>writes := writes (world s) + 1\<rparr>\<rparr>"
      show ?thesis
      proof (cases "ConnWrite env (writes (world s)) c req")
        case None
        with le Some show ?thesis by (simp add: writeLoop.simps)
      next
        case werr: (Some e)
        obtain r s2 where rf: "refreshLocalConnection env host True s1 = (r, s2)"
          by (cases "refreshLocalConnection env host True s1")
        show ?thesis
        proof (cases r)
          case None
          have "fst (writeLoop env req host (tries + 1) s2) \<noteq> Blocks \<and>
            fst (writeLoop env req host (tries + 1) s2) \<noteq> Exits"
            using "1.IH" [OF le Some s1_def werr rf [symmetric]] None by simp
          with le Some werr rf None show ?thesis
            by (simp add: writeLoop.simps [of env req host tries s] s1_def)
        next
          case (Some e')
          with le \<open>localConnection (wsc s) = Some c\<close> werr rf show ?thesis
            by (simp add: writeLoop.simps [of env req host tries s] s1_def)
        qed
      qed
    qed
  qed
qed

lemma processRequest_outcome:
  assumes "processRequest env rid req s = (r, s')"
  shows "r \<noteq> Exits" and "r = Blocks \<Longrightarrow> send (requestSentChan (tun s')) = None"
proof -
  obtain e s1 where rf: "refreshLocalConnection env (LocalRelayServer (tun s)) False s = (e, s1)"
    by (cases "refreshLocalConnection env (LocalRelayServer (tun s)) False s")
  obtain x s2 where wl: "writeLoop env req (LocalRelayServer (tun s)) 1 s1 = (x, s2)"
    by (cases "writeLoop env req (LocalRelayServer (tun s)) 1 s1")
  have x: "x \<noteq> Blocks" "x \<noteq> Exits"
    using writeLoop_outcome [of env req "LocalRelayServer (tun s)" 1 s1] wl by simp_all
  show "r \<noteq> Exits"
    using assms rf wl x
    by (auto simp: processRequest_def Let_def split: option.splits exec.splits)
  show "r = Blocks \<Longrightarrow> send (requestSentChan (tun s')) = None"
    using assms rf wl x
    by (auto simp: processRequest_def Let_def split: option.splits exec.splits)
qed

lemma waitingSend_configured:
  assumes c: "configured (tun s)" and full: "send (requestSentChan (tun s)) = None"
  shows "fst (waitingSend env s) = Returns None" and "configured (tun (snd (waitingSend env s)))"
proof -
  define i where "i = (if Taker env (yields (world s)) \<le> length (olderPumps (world s))
      then Taker env (yields (world s)) else 0)"
  define s2 where "s2 = s\<lparr>world := (world s)\<lparr>yields := Suc (yields (world s))\<rparr>\<rparr>"
  have c2: "configured (tun s2)" and i: "i \<le> length (olderPumps (world s2))"
    using c by (simp_all add: s2_def i_def)
  obtain x s3 where pp: "pumpPass env i s2 = (x, s3)"
    by (cases "pumpPass env i s2")
  have x: "x = Returns ()" and c3: "configured (tun s3)"
    and ch: "requestSentChan (tun s3) = snd (try_recv (requestSentChan (tun s)))"
    using pumpPass_configured(1,2) [OF c2, of env i] pumpPass_configured(3) [OF c2 i, of env] pp
    by (simp_all add: s2_def)
  from c have "usable (requestSentChan (tun s))"
    by (simp add: configured_def)
  from send_after_recv [OF this full] ch
  obtain ch' where snd: "send (requestSentChan (tun s3)) = Some ch'" and us: "usable ch'"
    by auto
  have ws: "waitingSend env s = (Returns None, s3\<lparr>tun := (tun s3)\<lparr>requestSentChan := ch'\<rparr>\<rparr>)"
    unfolding waitingSend_def Let_def i_def [symmetric] s2_def [symmetric]
    using pp x snd by simp
  show "fst (waitingSend env s) = Returns None"
    by (simp add: ws)
  show "configured (tun (snd (waitingSend env s)))"
    using c3 us by (simp add: ws configured_def)
qed

lemma forward_configured:
  assumes c: "configured (tun s)"
  shows "\<exists>e. fst (forward env rid req s) = Returns e"
    and "configured (tun (snd (forward env rid req s)))"
proof -
  obtain r s1 where pr: "processRequest env rid req s = (r, s1)"
    by (cases "processRequest env rid req s")
  from c have host: "LocalRelayServer (tun s) \<noteq> ''''" and us: "usable (requestSentChan (tun s))"
    by (simp_all add: configured_def)
  have np: "r \<noteq> Panics"
    using processRequest_no_panic [OF host, of env rid req] pr by simp
  have same: "sameClient (tun s) (tun s1)"
    using processRequest_frame [of s env rid req] pr by simp
  note sig = processRequest_signal [OF pr]
  note out = processRequest_outcome [OF pr]
  have c1: "configured (tun s1)"
  proof (rule configured_sameClient [OF same host])
    show "usable (requestSentChan (tun s1))"
    proof (cases r)
      case (Returns e)
      with sig us show ?thesis
        by (cases e) (auto dest: usable_send [OF us])
    qed (use sig us in simp_all)
  qed
  have both: "(\<exists>e. fst (forward env rid req s) = Returns e) \<and>
     configured (tun (snd (forward env rid req s)))"
  proof (cases r)
    case (Returns e)
    with pr c1 show ?thesis by (simp add: forward_def)
  next
    case Panics
    with np show ?thesis by simp
  next
    case Exits
    with out(1) show ?thesis by simp
  next
    case Blocks
    with out(2) have "send (requestSentChan (tun s1)) = None"
      by simp
    from waitingSend_configured [OF c1 this, of env] pr Blocks show ?thesis
      by (simp add: forward_def)
  qed
  from both show "\<exists>e. fst (forward env rid req s) = Returns e" ..
  from both show "configured (tun (snd (forward env rid req s)))" ..
qed

lemma requestLoop_configured:
  "configured (tun s) \<Longrightarrow>
   fst (requestLoop env s) = Returns () \<and> configured (tun (snd (requestLoop env s)))"
proof (induction env s rule: requestLoop.induct)
  case (1 env s)
  obtain x w where nr: "nextRequest (ws (wsc s)) = (x, w)"
    by (cases "nextRequest (ws (wsc s))")
  let ?s1 = "s\<lparr>wsc := (wsc s)\<lparr>ws := w\<rparr>\<rparr>"
  have c1: "configured (tun ?s1)"
    using "1.prems" by simp
  show ?case
  proof (cases x)
    case (Inl e)
    with nr "1.prems" show ?thesis
      by (simp add: requestLoop.simps [of env s])
  next
    case (Inr y)
    obtain rid request where y: "y = (rid, request)"
      by (cases y)
    show ?thesis
    proof (cases "0 < length request")
      case False
      obtain x3 s3 where yl: "yield env ?s1 = (x3, s3)"
        by (cases "yield env ?s1")
      from yield_configured [OF c1, of env] yl
      have x3: "x3 = Returns ()" and c3: "configured (tun s3)"
        by simp_all
      have "fst (requestLoop env s3) = Returns () \<and> configured (tun (snd (requestLoop env s3)))"
        using "1.IH"(2) [OF nr [symmetric] Inr y [symmetric] False yl [symmetric] x3 c3] .
      with nr Inr y False yl x3 show ?thesis
        by (simp add: requestLoop.simps [of env s])
    next
      case True
      obtain r s2 where fw: "forward env rid request ?s1 = (r, s2)"
        by (cases "forward env rid request ?s1")
      from forward_configured [OF c1, of env rid request] fw
      obtain e where r: "r = Returns e" and c2: "configured (tun s2)"
        by auto
      obtain x3 s3 where yl: "yield env s2 = (x3, s3)"
        by (cases "yield env s2")
      from yield_configured [OF c2, of env] yl
      have x3: "x3 = Returns ()" and c3: "configured (tun s3)"
        by simp_all
      have "fst (requestLoop env s3) = Returns () \<and> configured (tun (snd (requestLoop env s3)))"
        using "1.IH"(1) [OF nr [symmetric] Inr y [symmetric] True fw [symmetric] r
            yl [symmetric] x3 c3] .
      with nr Inr y True fw r yl x3 show ?thesis
        by (simp add: requestLoop.simps [of env s])
    qed
  qed
qed

lemma handleRequests_configured:
  assumes "configured (tun s)"
  shows "fst (handleRequests env s) = Returns ()"
    and "configured (tun (snd (handleRequests env s)))"
proof -
  let ?s0 = "s\<lparr>responder := \<lparr> pumpHost = LocalRelayServer (tun s), pumpId = 0 \<rparr>\<rparr>"
  have c0: "configured (tun ?s0)"
    using assms by simp
  obtain x s1 where yl: "yield env ?s0 = (x, s1)"
    by (cases "yield env ?s0")
  from yield_configured [OF c0, of env] yl
  have x: "x = Returns ()" and c1: "configured (tun s1)"
    by simp_all
  obtain y s2 where rl: "requestLoop env s1 = (y, s2)"
    by (cases "requestLoop env s1")
  from requestLoop_configured [OF c1, of env] rl
  have y: "y = Returns ()" and c2: "configured (tun s2)"
    by simp_all
  from yl rl x y c2 show "fst (handleRequests env s) = Returns ()"
    and "configured (tun (snd (handleRequests env s)))"
    by (simp_all add: handleRequests_def)
qed


section \<open>Session supervisor: the retry count and the ways out of the dial loop\<close>

lemma sameClient_fields:
  assumes "sameClient t t'"
  shows "retryOnFailCount t' = retryOnFailCount t" and "Connected t' = Connected t"
    and "conn t' = conn t" and "LocalRelayServer t' = LocalRelayServer t"
  using assms by (simp_all add: sameClient_iff)

lemma exitCheck_retry: "retryOnFailCount (exitCheck t) = retryOnFailCount t"
  by (simp add: exitCheck_def split: prod.splits)

lemma pump_retry:
  "retryOnFailCount (tun (snd (handleRequests env (pumpSession t c w)))) = 0"
  using handleRequests_frame [of "pumpSession t c w" env]
  by (auto dest: sameClient_fields(1) simp: pumpSession_def installConnection_def)

lemma pump_dials:
  "tunnelDials (world (snd (handleRequests env (pumpSession t c w)))) = tunnelDials c"
  using handleRequests_frame [of "pumpSession t c w" env]
  by (simp add: pumpSession_def)

lemma sessionIteration_step:
  assumes it: "sessionIteration env (t, c) = (r, t', c')"
  shows "tunnelDials c' = Suc (tunnelDials c) \<and>
     (dialFailed env (tunnelDials c) \<longrightarrow>
        r = Returns () \<and> retryOnFailCount t' = retryOnFailCount t + 1) \<and>
     (\<not> dialFailed env (tunnelDials c) \<longrightarrow>
        retryOnFailCount t' = 0 \<or> (r = Panics \<and> retryOnFailCount t' = retryOnFailCount t))"
proof (cases "derr (TunnelDial env (tunnelDials c))")
  case (Some e)
  with it show ?thesis
    by (auto simp: sessionIteration_def Let_def dialFailed_def exitCheck_retry)
next
  case None
  let ?c1 = "c\<lparr>tunnelDials := tunnelDials c + 1\<rparr>"
  show ?thesis
  proof (cases "dws (TunnelDial env (tunnelDials c))")
    case nows: None
    with it \<open>derr (TunnelDial env (tunnelDials c)) = None\<close> show ?thesis
      by (auto simp: sessionIteration_def Let_def dialFailed_def)
  next
    case (Some w)
    obtain x s where hr: "handleRequests env (pumpSession t ?c1 w) = (x, s)"
      by (cases "handleRequests env (pumpSession t ?c1 w)")
    have r0: "retryOnFailCount (tun s) = 0"
      using pump_retry [of env t ?c1 w] hr by simp
    have d1: "tunnelDials (world s) = Suc (tunnelDials c)"
      using pump_dials [of env t ?c1 w] hr by simp
    from it None Some hr r0 d1 show ?thesis
      by (cases x)
        (auto simp: sessionIteration_def Let_def dialFailed_def exitCheck_retry afterPump_def
           leftRunning_def)
  qed
qed

text \<open>
  A pass of the loop of a configured client always comes back: a failed dial is
  counted, a session runs to its end.
\<close>

lemma configured_exitCheck: "configured t \<Longrightarrow> configured (exitCheck t)"
  by (simp add: configured_def exitCheck_def split: prod.splits)

lemma sessionIteration_configured:
  assumes c: "configured t" and d: "dialerSound env"
  shows "fst (sessionIteration env (t, c0)) = Returns ()"
    and "configured (fst (snd (sessionIteration env (t, c0))))"
proof -
  have both: "fst (sessionIteration env (t, c0)) = Returns () \<and>
     configured (fst (snd (sessionIteration env (t, c0))))"
  proof (cases "derr (TunnelDial env (tunnelDials c0))")
    case (Some e)
    have "configured (exitCheck (t\<lparr>retryOnFailCount := retryOnFailCount t + 1\<rparr>))"
      using c by (intro configured_exitCheck) (simp add: configured_def)
    with Some show ?thesis
      by (simp add: sessionIteration_def Let_def)
  next
    case None
    with d obtain w where w: "dws (TunnelDial env (tunnelDials c0)) = Some w"
      by (auto simp: dialerSound_def)
    let ?s0 = "pumpSession t (c0\<lparr>tunnelDials := tunnelDials c0 + 1\<rparr>) w"
    have c0: "configured (tun ?s0)"
      using c by (simp add: pumpSession_def installConnection_def configured_def)
    obtain x s where hr: "handleRequests env ?s0 = (x, s)"
      by (cases "handleRequests env ?s0")
    from handleRequests_configured [OF c0, of env] hr
    have x: "x = Returns ()" and cs: "configured (tun s)"
      by simp_all
    have "configured (exitCheck (afterPump s))"
      using cs by (intro configured_exitCheck) (simp add: afterPump_def configured_def)
    with None w hr x show ?thesis
      by (simp add: sessionIteration_def Let_def)
  qed
  from both show "fst (sessionIteration env (t, c0)) = Returns ()" ..
  from both show "configured (fst (snd (sessionIteration env (t, c0))))" ..
qed

lemma sessionLoop_configured:
  "configured t \<Longrightarrow> dialerSound env \<Longrightarrow>
   fst (sessionLoop env n (t, c)) = None \<or> fst (sessionLoop env n (t, c)) = Some (Returns ())"
proof (induction n arbitrary: t c)
  case 0
  then show ?case by simp
next
  case (Suc n)
  show ?case
  proof (cases "retryOnFailCount t = maxRetryAttempts")
    case True
    then show ?thesis by simp
  next
    case False
    obtain r t1 c1 where it: "sessionIteration env (t, c) = (r, t1, c1)"
      by (cases "sessionIteration env (t, c)") auto
    from sessionIteration_configured [OF Suc.prems, of c] it
    have r: "r = Returns ()" and c1: "configured t1"
      by simp_all
    from Suc.IH [OF c1 Suc.prems(2), of c1] it r False show ?thesis
      by simp
  qed
qed

lemma sessionLoop_bound:
  "0 \<le> retryOnFailCount t \<Longrightarrow> retryOnFailCount t \<le> maxRetryAttempts \<Longrightarrow>
   0 \<le> retryOnFailCount (fst (snd (sessionLoop env n (t, c)))) \<and>
   retryOnFailCount (fst (snd (sessionLoop env n (t, c)))) \<le> maxRetryAttempts"
proof (induction n arbitrary: t c)
  case 0
  then show ?case by simp
next
  case (Suc n)
  show ?case
  proof (cases "retryOnFailCount t = maxRetryAttempts")
    case True
    with Suc.prems show ?thesis by simp
  next
    case False
    obtain r t1 c1 where it: "sessionIteration env (t, c) = (r, t1, c1)"
      by (cases "sessionIteration env (t, c)") auto
    have b: "0 \<le> retryOnFailCount t1 \<and> retryOnFailCount t1 \<le> maxRetryAttempts"
      using sessionIteration_step [OF it] Suc.prems False
      by (cases "dialFailed env (tunnelDials c)") auto
    show ?thesis
    proof (cases r)
      case (Returns u)
      with it False Suc.IH [of t1 c1] b show ?thesis by simp
    qed (use it False b in simp_all)
  qed
qed

lemma retryInv_step:
  assumes inv: "retryInv env d0 t c" and ne: "retryOnFailCount t \<noteq> maxRetryAttempts"
    and it: "sessionIteration env (t, c) = (Returns (), t1, c1)"
  shows "retryInv env d0 t1 c1"
proof (cases "dialFailed env (tunnelDials c)")
  case True
  from sessionIteration_step [OF it] True
  have d: "tunnelDials c1 = Suc (tunnelDials c)"
    and r: "retryOnFailCount t1 = retryOnFailCount t + 1"
    by simp_all
  from inv have r0: "0 \<le> retryOnFailCount t"
    by (simp add: retryInv_def)
  then have n1: "nat (retryOnFailCount t + 1) = Suc (nat (retryOnFailCount t))"
    by simp
  have "dialFailed env (tunnelDials c1 - 1 - k)" if "k < nat (retryOnFailCount t1)" for k
  proof (cases k)
    case 0
    with True d show ?thesis by simp
  next
    case (Suc k')
    with that r n1 have "k' < nat (retryOnFailCount t)" by simp
    with inv have "dialFailed env (tunnelDials c - 1 - k')"
      by (simp add: retryInv_def)
    with Suc d show ?thesis by simp
  qed
  with inv ne d r n1 show ?thesis
    by (simp add: retryInv_def)
next
  case False
  from sessionIteration_step [OF it] False
  have d: "tunnelDials c1 = Suc (tunnelDials c)" and r: "retryOnFailCount t1 = 0"
    by simp_all
  with inv show ?thesis
    by (simp add: retryInv_def maxRetryAttempts_def)
qed

lemma sessionLoop_exit:
  "retryInv env d0 t c \<Longrightarrow> fst (sessionLoop env n (t, c)) = Some (Returns ()) \<Longrightarrow>
   retryInv env d0 (fst (snd (sessionLoop env n (t, c)))) (snd (snd (sessionLoop env n (t, c)))) \<and>
   retryOnFailCount (fst (snd (sessionLoop env n (t, c)))) = maxRetryAttempts"
proof (induction n arbitrary: t c)
  case 0
  then show ?case by simp
next
  case (Suc n)
  show ?case
  proof (cases "retryOnFailCount t = maxRetryAttempts")
    case True
    with Suc.prems show ?thesis by simp
  next
    case False
    obtain r t1 c1 where it: "sessionIteration env (t, c) = (r, t1, c1)"
      by (cases "sessionIteration env (t, c)") auto
    show ?thesis
    proof (cases r)
      case (Returns u)
      with it have it': "sessionIteration env (t, c) = (Returns (), t1, c1)" by simp
      have "retryInv env d0 t1 c1"
        by (rule retryInv_step [OF Suc.prems(1) False it'])
      moreover have "fst (sessionLoop env n (t1, c1)) = Some (Returns ())"
        using Suc.prems(2) False it' by simp
      ultimately show ?thesis
        using Suc.IH [of t1 c1] False it' by simp
    qed (use it False Suc.prems(2) in simp_all)
  qed
qed

lemma sessionLoop_ceiling:
  assumes f: "\<forall>k<50. dialFailed env (j + k)"
  shows "0 \<le> retryOnFailCount t \<Longrightarrow> retryOnFailCount t \<le> maxRetryAttempts \<Longrightarrow>
     tunnelDials c \<le> j + 50 \<Longrightarrow>
     (j \<le> tunnelDials c \<longrightarrow> int (tunnelDials c - j) \<le> retryOnFailCount t) \<Longrightarrow>
     j + 50 - tunnelDials c < n \<Longrightarrow>
     (fst (sessionLoop env n (t, c)) = Some (Returns ()) \<and>
        tunnelDials (snd (snd (sessionLoop env n (t, c)))) \<le> j + 50) \<or>
     (fst (sessionLoop env n (t, c)) \<noteq> None \<and>
        tunnelDials (snd (snd (sessionLoop env n (t, c)))) \<le> j)"
proof (induction n arbitrary: t c)
  case 0
  then show ?case by simp
next
  case (Suc n)
  let ?d = "tunnelDials c"
  show ?case
  proof (cases "retryOnFailCount t = maxRetryAttempts")
    case True
    with Suc.prems show ?thesis by simp
  next
    case False
    with Suc.prems have lt: "retryOnFailCount t < 50"
      by (simp add: maxRetryAttempts_def)
    with Suc.prems have dlt: "?d < j + 50"
      by (cases "j \<le> ?d") auto
    obtain r t1 c1 where it: "sessionIteration env (t, c) = (r, t1, c1)"
      by (cases "sessionIteration env (t, c)") auto
    note st = sessionIteration_step [OF it]
    have d1: "tunnelDials c1 = Suc ?d" using st by simp
    show ?thesis
    proof (cases "dialFailed env ?d")
      case True
      with st have r: "r = Returns ()" and r1: "retryOnFailCount t1 = retryOnFailCount t + 1"
        by simp_all
      have "(fst (sessionLoop env n (t1, c1)) = Some (Returns ()) \<and>
          tunnelDials (snd (snd (sessionLoop env n (t1, c1)))) \<le> j + 50) \<or>
        (fst (sessionLoop env n (t1, c1)) \<noteq> None \<and>
          tunnelDials (snd (snd (sessionLoop env n (t1, c1)))) \<le> j)"
      proof (rule Suc.IH)
        show "0 \<le> retryOnFailCount t1" using r1 Suc.prems by simp
        show "retryOnFailCount t1 \<le> maxRetryAttempts"
          using r1 lt by (simp add: maxRetryAttempts_def)
        show "tunnelDials c1 \<le> j + 50" using d1 dlt by simp
        show "j \<le> tunnelDials c1 \<longrightarrow> int (tunnelDials c1 - j) \<le> retryOnFailCount t1"
          using d1 r1 Suc.prems(1,4) by (cases "j \<le> ?d") auto
        show "j + 50 - tunnelDials c1 < n" using d1 dlt Suc.prems(5) by simp
      qed
      with it r False show ?thesis by simp
    next
      case nf: False
      have dj: "?d < j"
      proof (rule ccontr)
        assume "\<not> ?d < j"
        then have "?d - j < 50" and "j + (?d - j) = ?d" using dlt by simp_all
        with f have "dialFailed env ?d" by metis
        with nf show False by simp
      qed
      show ?thesis
      proof (cases r)
        case (Returns u)
        with st nf have r1: "retryOnFailCount t1 = 0" by auto
        have "(fst (sessionLoop env n (t1, c1)) = Some (Returns ()) \<and>
            tunnelDials (snd (snd (sessionLoop env n (t1, c1)))) \<le> j + 50) \<or>
          (fst (sessionLoop env n (t1, c1)) \<noteq> None \<and>
            tunnelDials (snd (snd (sessionLoop env n (t1, c1)))) \<le> j)"
        proof (rule Suc.IH)
          show "0 \<le> retryOnFailCount t1" using r1 by simp
          show "retryOnFailCount t1 \<le> maxRetryAttempts"
            using r1 by (simp add: maxRetryAttempts_def)
          show "tunnelDials c1 \<le> j + 50" using d1 dj by simp
          show "j \<le> tunnelDials c1 \<longrightarrow> int (tunnelDials c1 - j) \<le> retryOnFailCount t1"
            using d1 r1 dj by auto
          show "j + 50 - tunnelDials c1 < n" using d1 dj Suc.prems(5) by simp
        qed
        with it Returns False show ?thesis by simp
      qed (use it False d1 dj in simp_all)
    qed
  qed
qed


text \<open>Runs of the loop against a tunnel endpoint that refuses every dial.\<close>

lemma tunnelDown_step:
  "retryOnFailCount t \<noteq> 50 \<Longrightarrow>
   sessionLoop tunnelDown (Suc n) (t, c) =
     sessionLoop tunnelDown n
       (exitCheck (t\<lparr>retryOnFailCount := retryOnFailCount t + 1\<rparr>), c\<lparr>tunnelDials := tunnelDials c + 1\<rparr>)"
  by (simp add: sessionIteration_def tunnelDown_def relayWorld_def maxRetryAttempts_def Let_def)

lemma tunnelDown_failed: "dialFailed tunnelDown k"
  by (simp add: dialFailed_def tunnelDown_def relayWorld_def)

lemma tunnelDown_run:
  "retryOnFailCount t = 50 - int m \<Longrightarrow> m \<le> 50 \<Longrightarrow>
   fst (sessionLoop tunnelDown (Suc m) (t, c)) = Some (Returns ()) \<and>
   retryOnFailCount (fst (snd (sessionLoop tunnelDown (Suc m) (t, c)))) = 50 \<and>
   tunnelDials (snd (snd (sessionLoop tunnelDown (Suc m) (t, c)))) = tunnelDials c + m"
proof (induction m arbitrary: t c)
  case 0
  then show ?case by (simp add: maxRetryAttempts_def)
next
  case (Suc m)
  from Suc.prems have ne: "retryOnFailCount t \<noteq> 50" by simp
  let ?t1 = "exitCheck (t\<lparr>retryOnFailCount := retryOnFailCount t + 1\<rparr>)"
  let ?c1 = "c\<lparr>tunnelDials := tunnelDials c + 1\<rparr>"
  have "retryOnFailCount ?t1 = 50 - int m"
    using Suc.prems by (simp add: exitCheck_retry)
  from Suc.IH [OF this, of ?c1] Suc.prems(2) show ?case
    by (simp add: tunnelDown_step [OF ne] del: sessionLoop.simps)
qed

lemma tunnelDown_running:
  "retryOnFailCount t = 50 - int m \<Longrightarrow> n \<le> m \<Longrightarrow> m \<le> 50 \<Longrightarrow>
   fst (sessionLoop tunnelDown n (t, c)) = None \<and>
   tunnelDials (snd (snd (sessionLoop tunnelDown n (t, c)))) = tunnelDials c + n"
proof (induction n arbitrary: t c m)
  case 0
  then show ?case by simp
next
  case (Suc n)
  from Suc.prems obtain m' where m: "m = Suc m'" by (cases m) auto
  from Suc.prems m have ne: "retryOnFailCount t \<noteq> 50" by simp
  let ?t1 = "exitCheck (t\<lparr>retryOnFailCount := retryOnFailCount t + 1\<rparr>)"
  let ?c1 = "c\<lparr>tunnelDials := tunnelDials c + 1\<rparr>"
  have "retryOnFailCount ?t1 = 50 - int m'"
    using Suc.prems m by (simp add: exitCheck_retry)
  from Suc.IH [OF this, of ?c1] Suc.prems m show ?case
    by (simp add: tunnelDown_step [OF ne] del: sessionLoop.simps)
qed


text \<open>
  Claim C7. \<^verbatim>\<open>retryOnFailCount\<close> never exceeds \<^verbatim>\<open>maxRetryAttempts\<close> (50); after exactly 50
  consecutive dial failures with no success in between, the session loop exits and
  never dials again; fewer than 50 consecutive failures never make the loop exit.
  For a loop started with a retry count of 0 and run for \<open>n\<close> passes, with sessions of
  any length in between:
  \<^item> the retry count of the state reached is at most 50;
  \<^item> if the dials \<open>j\<close> to \<open>j + 49\<close> all fail and \<open>n\<close> is large enough to reach them, the
    run has ended and no dial beyond number \<open>j + 49\<close> was made, however large \<open>n\<close> is; it
    has ended by the exit of the loop, unless the process went down in a session before
    dial \<open>j\<close>;
  \<^item> for a configured client and a sound dialer no session brings the process down: the
    loop is either still running or has exited, and the 50 failed dials \<open>j\<close> to
    \<open>j + 49\<close> make it exit;
  \<^item> if the loop has exited, the retry count is 50, at least 50 dials were made and
    the last 50 of them all failed.
\<close>

theorem retry_ceiling:
  assumes "retryOnFailCount t = 0"
  shows "retryOnFailCount (fst (snd (sessionLoop env n (t, c)))) \<le> maxRetryAttempts \<and>
    ((\<forall>k<50. dialFailed env (j + k)) \<and> tunnelDials c \<le> j \<and> j + 50 - tunnelDials c < n \<longrightarrow>
       fst (sessionLoop env n (t, c)) \<noteq> None \<and>
       tunnelDials (snd (snd (sessionLoop env n (t, c)))) \<le> j + 50 \<and>
       (fst (sessionLoop env n (t, c)) = Some (Returns ()) \<or>
        tunnelDials (snd (snd (sessionLoop env n (t, c)))) \<le> j)) \<and>
    (configured t \<and> dialerSound env \<longrightarrow>
       (fst (sessionLoop env n (t, c)) = None \<or>
        fst (sessionLoop env n (t, c)) = Some (Returns ())) \<and>
       ((\<forall>k<50. dialFailed env (j + k)) \<and> tunnelDials c \<le> j \<and> j + 50 - tunnelDials c < n \<longrightarrow>
          fst (sessionLoop env n (t, c)) = Some (Returns ()))) \<and>
    (fst (sessionLoop env n (t, c)) = Some (Returns ()) \<longrightarrow>
       retryOnFailCount (fst (snd (sessionLoop env n (t, c)))) = maxRetryAttempts \<and>
       tunnelDials c + 50 \<le> tunnelDials (snd (snd (sessionLoop env n (t, c)))) \<and>
       (\<forall>k<50. dialFailed env (tunnelDials (snd (snd (sessionLoop env n (t, c)))) - 1 - k)))"
proof -
  have ceiling: "(fst (sessionLoop env n (t, c)) = Some (Returns ()) \<and>
        tunnelDials (snd (snd (sessionLoop env n (t, c)))) \<le> j + 50) \<or>
     (fst (sessionLoop env n (t, c)) \<noteq> None \<and>
        tunnelDials (snd (snd (sessionLoop env n (t, c)))) \<le> j)"
    if h: "(\<forall>k<50. dialFailed env (j + k)) \<and> tunnelDials c \<le> j \<and> j + 50 - tunnelDials c < n"
  proof -
    from h have f: "\<forall>k<50. dialFailed env (j + k)" by simp
    show ?thesis
      using h assms by (intro sessionLoop_ceiling [OF f]) (auto simp: maxRetryAttempts_def)
  qed
  show ?thesis
  proof (intro conjI impI)
    show "retryOnFailCount (fst (snd (sessionLoop env n (t, c)))) \<le> maxRetryAttempts"
      using sessionLoop_bound [of t env n c] assms by (simp add: maxRetryAttempts_def)
  next
    assume h: "(\<forall>k<50. dialFailed env (j + k)) \<and> tunnelDials c \<le> j \<and> j + 50 - tunnelDials c < n"
    from ceiling [OF h] show "fst (sessionLoop env n (t, c)) \<noteq> None" by auto
    from ceiling [OF h] show "tunnelDials (snd (snd (sessionLoop env n (t, c)))) \<le> j + 50" by auto
    from ceiling [OF h] show "fst (sessionLoop env n (t, c)) = Some (Returns ()) \<or>
        tunnelDials (snd (snd (sessionLoop env n (t, c)))) \<le> j" by auto
  next
    assume "configured t \<and> dialerSound env"
    then show "fst (sessionLoop env n (t, c)) = None \<or>
        fst (sessionLoop env n (t, c)) = Some (Returns ())"
      by (simp add: sessionLoop_configured)
  next
    assume cd: "configured t \<and> dialerSound env"
      and h: "(\<forall>k<50. dialFailed env (j + k)) \<and> tunnelDials c \<le> j \<and> j + 50 - tunnelDials c < n"
    from cd have "fst (sessionLoop env n (t, c)) = None \<or>
        fst (sessionLoop env n (t, c)) = Some (Returns ())"
      by (simp add: sessionLoop_configured)
    with ceiling [OF h] show "fst (sessionLoop env n (t, c)) = Some (Returns ())"
      by auto
  next
    assume ex: "fst (sessionLoop env n (t, c)) = Some (Returns ())"
    have inv: "retryInv env (tunnelDials c) t c"
      using assms by (simp add: retryInv_def maxRetryAttempts_def)
    note e = sessionLoop_exit [OF inv ex]
    from e show "retryOnFailCount (fst (snd (sessionLoop env n (t, c)))) = maxRetryAttempts"
      by simp
    from e show "tunnelDials c + 50 \<le> tunnelDials (snd (snd (sessionLoop env n (t, c))))"
      by (auto simp: retryInv_def maxRetryAttempts_def)
    from e show "\<forall>k<50. dialFailed env (tunnelDials (snd (snd (sessionLoop env n (t, c)))) - 1 - k)"
      by (auto simp: retryInv_def maxRetryAttempts_def)
  qed
qed

text \<open>
  A run with sessions in it: the tunnel endpoint accepts the first two dials, each
  session forwards a request, and the endpoint refuses every dial after them. The loop
  exits with a retry count of 50 after 52 dials.
\<close>

theorem retry_ceiling_witness:
  "retryOnFailCount startedClient = 0 \<and> configured startedClient \<and>
   \<not> dialFailed tunnelUpTwice 0 \<and> \<not> dialFailed tunnelUpTwice 1 \<and>
   dialFailed tunnelUpTwice 2 \<and> dialFailed tunnelUpTwice 51 \<and>
   tunnelDials no_calls \<le> 2 \<and> 2 + 50 - tunnelDials no_calls < 53 \<and>
   fst (sessionLoop tunnelUpTwice 53 (startedClient, no_calls)) = Some (Returns ()) \<and>
   retryOnFailCount (fst (snd (sessionLoop tunnelUpTwice 53 (startedClient, no_calls)))) = 50 \<and>
   tunnelDials (snd (snd (sessionLoop tunnelUpTwice 53 (startedClient, no_calls)))) = 52"
proof -
  let ?D = "tunnelDials (snd (snd (sessionLoop tunnelUpTwice 53 (startedClient, no_calls))))"
  have r0: "retryOnFailCount startedClient = 0"
    by (simp add: startedClient_def startSession_def)
  have cf: "configured startedClient"
    by (simp add: configured_def usable_def startedClient_def startSession_def
        InitializeTunnelClient_def make_chan_def)
  have ds: "dialerSound tunnelUpTwice"
    by (simp add: dialerSound_def tunnelUpTwice_def tunnelUp_def tunnelDown_def relayWorld_def)
  have f: "\<forall>k<50. dialFailed tunnelUpTwice (2 + k)"
    by (simp add: dialFailed_def tunnelUpTwice_def tunnelDown_def relayWorld_def)
  have nf: "\<not> dialFailed tunnelUpTwice 0" "\<not> dialFailed tunnelUpTwice 1"
    by (simp_all add: dialFailed_def tunnelUpTwice_def tunnelUp_def relayWorld_def)
  have d0: "tunnelDials no_calls = 0"
    by (simp add: no_calls_def)
  note th = retry_ceiling [OF r0, of tunnelUpTwice 53 no_calls 2]
  from th cf ds f d0
  have ex: "fst (sessionLoop tunnelUpTwice 53 (startedClient, no_calls)) = Some (Returns ())"
    by simp
  from th f d0 have le: "?D \<le> 52"
    by simp
  from th ex d0 have r: "retryOnFailCount (fst (snd (sessionLoop tunnelUpTwice 53 (startedClient, no_calls)))) = 50"
    and ge: "50 \<le> ?D" and last: "\<forall>k<50. dialFailed tunnelUpTwice (?D - 1 - k)"
    by (simp_all add: maxRetryAttempts_def)
  have "?D = 52"
  proof (rule ccontr)
    assume "?D \<noteq> 52"
    with le ge have k: "?D - 2 < 50" and i: "?D - 1 - (?D - 2) = 1"
      by simp_all
    from last k have "dialFailed tunnelUpTwice (?D - 1 - (?D - 2))"
      by blast
    with i nf(2) show False
      by simp
  qed
  moreover have "dialFailed tunnelUpTwice 2" "dialFailed tunnelUpTwice 51"
    by (simp_all add: dialFailed_def tunnelUpTwice_def tunnelDown_def relayWorld_def)
  ultimately show ?thesis
    using r0 cf nf d0 ex r by simp
qed


text \<open>
  Two sessions in a row, against a tunnel endpoint that accepts every dial and delivers
  one request per session. Both requests are written to the relay. The send that
  follows the second write finds the token of the first request still in
  \<^verbatim>\<open>requestSentChan\<close>; it is completed once the response pump of the session has taken
  that token (one probe of the cached connection, one read from it). After the two
  passes the loop is still running, with both response pumps left behind.
\<close>

lemma nextRequest_nothing_left:
  "incoming w = [] \<Longrightarrow> nextRequest w = (Inl (OpError ''use of closed network connection''), w)"
  by (simp add: nextRequest_def NextReader_def)

lemma nextRequest_on_connection:
  "nextRequest \<lparr> readLimit = 104857600,
       incoming = [Message BinaryMessage \<lparr> rdata = ''0001GET /'', rerr = None \<rparr>],
       outgoing = out, closed = cl \<rparr>
     = (Inr (1, ''GET /''), \<lparr> readLimit = 104857600, incoming = [], outgoing = out, closed = cl \<rparr>)"
  using Fscanf_04x_0001 [of "''GET /''" None]
  by (simp add: nextRequest_def NextReader_def readRequest_def BinaryMessage_def)

lemma tunnelUp_two_sessions:
  "fst (sessionLoop tunnelUp 2 (startedClient, no_calls)) = None \<and>
   retryOnFailCount (fst (snd (sessionLoop tunnelUp 2 (startedClient, no_calls)))) = 0 \<and>
   requestSentChan (fst (snd (sessionLoop tunnelUp 2 (startedClient, no_calls)))) = Chan 1 1 \<and>
   tunnelDials (snd (snd (sessionLoop tunnelUp 2 (startedClient, no_calls)))) = 2 \<and>
   writes (snd (snd (sessionLoop tunnelUp 2 (startedClient, no_calls)))) = 2 \<and>
   probes (snd (snd (sessionLoop tunnelUp 2 (startedClient, no_calls)))) = 1 \<and>
   drains (snd (snd (sessionLoop tunnelUp 2 (startedClient, no_calls)))) = 1 \<and>
   length (olderPumps (snd (snd (sessionLoop tunnelUp 2 (startedClient, no_calls))))) = 2"
  by (simp add: sessionIteration_def handleRequests_def yield_def forward_def waitingSend_def
      pumpPass_def responseIteration_def exitCheckS_def exitCheck_def
      processRequest_def refreshLocalConnection_def dialLocalConnection_def writeLoop.simps
      pumpSession_def installConnection_def newConnection_def afterPump_def leftRunning_def
      wsClose_def requestLoop.simps nextRequest_nothing_left nextRequest_on_connection
      tunnelUp_def relayWorld_def startedClient_def startSession_def InitializeTunnelClient_def
      make_chan_def no_calls_def oneRequest_def quietWs_def maxRetryAttempts_def
      numeral_2_eq_2 Let_def)

text \<open>
  Claim C8. Every successful dial of the tunnel WebSocket resets \<^verbatim>\<open>retryOnFailCount\<close> to
  0 before the request pump starts, and sets \<^verbatim>\<open>Connected\<close> to true with the new
  connection installed.
  For a pass of the dial loop whose dial returns no error and the connection \<open>w\<close>:
  \<^item> the pass is \<^verbatim>\<open>handleRequests\<close> run on the session of the new connection, with a
    client whose \<^verbatim>\<open>conn\<close> is that connection, whose \<^verbatim>\<open>Connected\<close> is true and whose retry
    count is 0, followed by what the loop does once the pump has returned;
  \<^item> the three still hold where the pump ends, whatever it has done in between;
  \<^item> after the pass the retry count is 0 and \<^verbatim>\<open>conn\<close> is set, and \<^verbatim>\<open>Connected\<close> is true
    exactly when the pump has not returned.
\<close>

theorem successful_dial_starts_pump_connected:
  assumes "derr (TunnelDial env (tunnelDials c)) = None"
    and "dws (TunnelDial env (tunnelDials c)) = Some w"
  shows
   "sessionIteration env (t, c) =
      (case handleRequests env
              \<lparr> wsc = newConnection w,
                tun = t\<lparr>conn := Some (newConnection w), Connected := True, retryOnFailCount := 0\<rparr>,
                world = c\<lparr>tunnelDials := tunnelDials c + 1\<rparr>,
                responder = \<lparr> pumpHost = '''', pumpId = 0 \<rparr> \<rparr> of
         (Returns u, s) \<Rightarrow>
           (Returns (), exitCheck ((tun s)\<lparr>conn := Some (wsc s), Connected := False\<rparr>), leftRunning s)
       | (Panics, s) \<Rightarrow> (Panics, (tun s)\<lparr>conn := Some (wsc s)\<rparr>, world s)
       | (Exits, s) \<Rightarrow> (Exits, (tun s)\<lparr>conn := Some (wsc s)\<rparr>, world s)
       | (Blocks, s) \<Rightarrow> (Blocks, (tun s)\<lparr>conn := Some (wsc s)\<rparr>, world s)) \<and>
    retryOnFailCount (tun (snd (handleRequests env
              \<lparr> wsc = newConnection w,
                tun = t\<lparr>conn := Some (newConnection w), Connected := True, retryOnFailCount := 0\<rparr>,
                world = c\<lparr>tunnelDials := tunnelDials c + 1\<rparr>,
                responder = \<lparr> pumpHost = '''', pumpId = 0 \<rparr> \<rparr>))) = 0 \<and>
    Connected (tun (snd (handleRequests env
              \<lparr> wsc = newConnection w,
                tun = t\<lparr>conn := Some (newConnection w), Connected := True, retryOnFailCount := 0\<rparr>,
                world = c\<lparr>tunnelDials := tunnelDials c + 1\<rparr>,
                responder = \<lparr> pumpHost = '''', pumpId = 0 \<rparr> \<rparr>))) \<and>
    conn (tun (snd (handleRequests env
              \<lparr> wsc = newConnection w,
                tun = t\<lparr>conn := Some (newConnection w), Connected := True, retryOnFailCount := 0\<rparr>,
                world = c\<lparr>tunnelDials := tunnelDials c + 1\<rparr>,
                responder = \<lparr> pumpHost = '''', pumpId = 0 \<rparr> \<rparr>))) = Some (newConnection w) \<and>
    retryOnFailCount (fst (snd (sessionIteration env (t, c)))) = 0 \<and>
    conn (fst (snd (sessionIteration env (t, c)))) \<noteq> None \<and>
    Connected (fst (snd (sessionIteration env (t, c)))) =
      (fst (sessionIteration env (t, c)) \<noteq> Returns ())"
proof -
  define s0 where "s0 =
    \<lparr> wsc = newConnection w,
      tun = t\<lparr>conn := Some (newConnection w), Connected := True, retryOnFailCount := 0\<rparr>,
      world = c\<lparr>tunnelDials := tunnelDials c + 1\<rparr>,
      responder = \<lparr> pumpHost = '''', pumpId = 0 \<rparr> \<rparr>"
  have ps: "pumpSession t (c\<lparr>tunnelDials := tunnelDials c + 1\<rparr>) w = s0"
    by (simp add: s0_def pumpSession_def installConnection_def)
  obtain x s where hr: "handleRequests env s0 = (x, s)"
    by (cases "handleRequests env s0")
  have same: "sameClient (tun s0) (tun s)"
    using handleRequests_frame [of s0 env] hr by simp
  have start: "retryOnFailCount (tun s0) = 0" "Connected (tun s0)"
    "conn (tun s0) = Some (newConnection w)"
    by (simp_all add: s0_def)
  have pump: "retryOnFailCount (tun s) = 0" "Connected (tun s)" "conn (tun s) = Some (newConnection w)"
    using sameClient_fields(1-3) [OF same] start by simp_all
  have pass: "sessionIteration env (t, c) =
      (case handleRequests env s0 of
         (Returns u, s) \<Rightarrow>
           (Returns (), exitCheck ((tun s)\<lparr>conn := Some (wsc s), Connected := False\<rparr>), leftRunning s)
       | (Panics, s) \<Rightarrow> (Panics, (tun s)\<lparr>conn := Some (wsc s)\<rparr>, world s)
       | (Exits, s) \<Rightarrow> (Exits, (tun s)\<lparr>conn := Some (wsc s)\<rparr>, world s)
       | (Blocks, s) \<Rightarrow> (Blocks, (tun s)\<lparr>conn := Some (wsc s)\<rparr>, world s))"
    unfolding sessionIteration_def Let_def prod.case assms option.case ps afterPump_def
    by (rule refl)
  have after: "retryOnFailCount (fst (snd (sessionIteration env (t, c)))) = 0 \<and>
    conn (fst (snd (sessionIteration env (t, c)))) \<noteq> None \<and>
    Connected (fst (snd (sessionIteration env (t, c)))) =
      (fst (sessionIteration env (t, c)) \<noteq> Returns ())"
    using pump hr
    by (cases x) (simp_all add: pass exitCheck_def split: prod.splits)
  from pass pump hr after show ?thesis
    unfolding s0_def [symmetric] by simp
qed

theorem successful_dial_starts_pump_connected_witness:
  "derr (TunnelDial tunnelUp (tunnelDials no_calls)) = None \<and>
   dws (TunnelDial tunnelUp (tunnelDials no_calls)) = Some oneRequest \<and>
   retryOnFailCount (startedClient\<lparr>retryOnFailCount := 7\<rparr>) = 7 \<and>
   fst (sessionIteration tunnelUp (startedClient\<lparr>retryOnFailCount := 7\<rparr>, no_calls)) = Returns () \<and>
   retryOnFailCount
     (fst (snd (sessionIteration tunnelUp (startedClient\<lparr>retryOnFailCount := 7\<rparr>, no_calls)))) = 0 \<and>
   conn (fst (snd (sessionIteration tunnelUp (startedClient\<lparr>retryOnFailCount := 7\<rparr>, no_calls))))
     \<noteq> None \<and>
   \<not> Connected (fst (snd (sessionIteration tunnelUp (startedClient\<lparr>retryOnFailCount := 7\<rparr>, no_calls)))) \<and>
   retryOnFailCount (tun (snd (handleRequests tunnelUp
        (pumpSession (startedClient\<lparr>retryOnFailCount := 7\<rparr>) (no_calls\<lparr>tunnelDials := 1\<rparr>)
           oneRequest)))) = 0 \<and>
   Connected (tun (snd (handleRequests tunnelUp
        (pumpSession (startedClient\<lparr>retryOnFailCount := 7\<rparr>) (no_calls\<lparr>tunnelDials := 1\<rparr>)
           oneRequest)))) \<and>
   conn (tun (snd (handleRequests tunnelUp
        (pumpSession (startedClient\<lparr>retryOnFailCount := 7\<rparr>) (no_calls\<lparr>tunnelDials := 1\<rparr>)
           oneRequest)))) = Some (newConnection oneRequest)"
proof -
  have d: "derr (TunnelDial tunnelUp (tunnelDials no_calls)) = None"
    "dws (TunnelDial tunnelUp (tunnelDials no_calls)) = Some oneRequest"
    by (simp_all add: tunnelUp_def relayWorld_def no_calls_def)
  have c1: "no_calls\<lparr>tunnelDials := tunnelDials no_calls + 1\<rparr> = no_calls\<lparr>tunnelDials := 1\<rparr>"
    by (simp add: no_calls_def)
  have ps: "pumpSession (startedClient\<lparr>retryOnFailCount := 7\<rparr>) (no_calls\<lparr>tunnelDials := 1\<rparr>) oneRequest =
     \<lparr> wsc = newConnection oneRequest,
       tun = startedClient\<lparr>retryOnFailCount := 7\<rparr>
               \<lparr>conn := Some (newConnection oneRequest), Connected := True, retryOnFailCount := 0\<rparr>,
       world = no_calls\<lparr>tunnelDials := 1\<rparr>,
       responder = \<lparr> pumpHost = '''', pumpId = 0 \<rparr> \<rparr>"
    by (simp add: pumpSession_def installConnection_def)
  have cf: "configured (startedClient\<lparr>retryOnFailCount := 7\<rparr>)"
    by (simp add: configured_def usable_def startedClient_def startSession_def
        InitializeTunnelClient_def make_chan_def)
  have ds: "dialerSound tunnelUp"
    by (simp add: dialerSound_def tunnelUp_def relayWorld_def)
  have ret: "fst (sessionIteration tunnelUp (startedClient\<lparr>retryOnFailCount := 7\<rparr>, no_calls)) = Returns ()"
    by (rule sessionIteration_configured(1) [OF cf ds])
  note th = successful_dial_starts_pump_connected
          [OF d, of "startedClient\<lparr>retryOnFailCount := 7\<rparr>", unfolded c1, folded ps]
  from th [THEN conjunct2] ret d show ?thesis
    by simp
qed

text \<open>
  Claim C3. After \<^verbatim>\<open>Stop()\<close> sets the exit signal, the dial loop observes it at its next
  exit check and terminates: at most one further reconnect iteration occurs and no
  dial is started after that check.
  The code does not terminate there. With the token of \<^verbatim>\<open>Stop\<close> in \<^verbatim>\<open>exitChan\<close> before
  the first pass and a tunnel endpoint that refuses every dial, the first exit check
  takes the token, and after 50 passes the loop has dialled 50 times and is still
  running: only the retry ceiling ends it, in the pass after.
\<close>

theorem stop_does_not_end_dial_loop:
  "Stop startedClient = (Returns (), startedClient\<lparr>exitChan := Chan 1 1\<rparr>) \<and>
   exitChan (fst (snd (sessionLoop tunnelDown 1 (snd (Stop startedClient), no_calls)))) = Chan 1 0 \<and>
   fst (sessionLoop tunnelDown 50 (snd (Stop startedClient), no_calls)) = None \<and>
   tunnelDials (snd (snd (sessionLoop tunnelDown 50 (snd (Stop startedClient), no_calls)))) = 50 \<and>
   fst (sessionLoop tunnelDown 51 (snd (Stop startedClient), no_calls)) = Some (Returns ())"
proof -
  have st: "Stop startedClient = (Returns (), startedClient\<lparr>exitChan := Chan 1 1\<rparr>)"
    by (simp add: Stop_def startedClient_def startSession_def make_chan_def)
  have r0: "retryOnFailCount (startedClient\<lparr>exitChan := Chan 1 1\<rparr>) = 50 - int 50"
    by (simp add: startedClient_def startSession_def)
  have one: "exitChan (fst (snd (sessionLoop tunnelDown 1 (startedClient\<lparr>exitChan := Chan 1 1\<rparr>, no_calls))))
      = Chan 1 0"
    by (simp add: sessionIteration_def tunnelDown_def relayWorld_def exitCheck_def
        startedClient_def startSession_def maxRetryAttempts_def Let_def)
  have run: "fst (sessionLoop tunnelDown 50 (startedClient\<lparr>exitChan := Chan 1 1\<rparr>, no_calls)) = None \<and>
     tunnelDials (snd (snd (sessionLoop tunnelDown 50 (startedClient\<lparr>exitChan := Chan 1 1\<rparr>, no_calls))))
       = tunnelDials no_calls + 50"
    by (rule tunnelDown_running [OF r0]) simp_all
  have s51: "Suc 50 = 51"
    by simp
  have out: "fst (sessionLoop tunnelDown 51 (startedClient\<lparr>exitChan := Chan 1 1\<rparr>, no_calls))
      = Some (Returns ())"
    using tunnelDown_run [OF r0, of no_calls] unfolding s51 by simp
  from st one run out show ?thesis
    by (simp add: no_calls_def)
qed



section \<open>Response pump: the loop has no way out\<close>

lemma try_recv_empty: "buffered ch = 0 \<Longrightarrow> try_recv ch = (False, ch)"
  by (cases ch rule: try_recv.cases) simp_all

lemma responseLoop_idle:
  "buffered (requestSentChan (tun s)) = 0 \<Longrightarrow>
   fst (responseLoop env host n (rid, s)) = None"
proof (induction n arbitrary: s)
  case 0
  then show ?case by simp
next
  case (Suc n)
  have it: "responseIteration env host (rid, s) = (Returns (), rid, exitCheckS s)"
    using Suc.prems by (simp add: responseIteration_def try_recv_empty)
  have "buffered (requestSentChan (tun (exitCheckS s))) = 0"
    using Suc.prems by (simp add: exitCheckS_def exitCheck_def split: prod.splits)
  from Suc.IH [OF this] it show ?case
    by simp
qed

lemma responseLoop_never_returns:
  "fst (responseLoop env host n st) \<noteq> Some (Returns ())"
proof (induction n arbitrary: st)
  case 0
  then show ?case by simp
next
  case (Suc n)
  obtain r st1 where it: "responseIteration env host st = (r, st1)"
    by (cases "responseIteration env host st")
  with Suc.IH [of st1] show ?case
    by (cases r) simp_all
qed

text \<open>
  Claim C9. The loop of \<^verbatim>\<open>processResponses\<close> terminates when the exit signal is set.
  The code does not: with the token of \<^verbatim>\<open>Stop\<close> in \<^verbatim>\<open>exitChan\<close> and no request pending,
  the first pass takes the token and the loop is still running after any number \<open>n\<close> of
  passes, whatever the environment answers.
\<close>

theorem response_pump_ignores_exit_signal:
  "exitChan (tun stoppedSession) = Chan 1 1 \<and>
   fst (processResponses env n stoppedSession) = None \<and>
   exitChan (tun (snd (snd (processResponses env 1 stoppedSession)))) = Chan 1 0"
proof -
  have st: "Stop startedClient = (Returns (), startedClient\<lparr>exitChan := Chan 1 1\<rparr>)"
    by (simp add: Stop_def startedClient_def startSession_def make_chan_def)
  have t: "tun stoppedSession = startedClient\<lparr>exitChan := Chan 1 1\<rparr>"
    by (simp add: stoppedSession_def st)
  have b: "buffered (requestSentChan (tun stoppedSession)) = 0"
    by (simp add: t startedClient_def startSession_def make_chan_def)
  have "fst (processResponses env n stoppedSession) = None"
    unfolding processResponses_def by (rule responseLoop_idle [OF b])
  moreover have "exitChan (tun (snd (snd (processResponses env 1 stoppedSession)))) = Chan 1 0"
    by (simp add: processResponses_def responseIteration_def exitCheckS_def exitCheck_def
        t startedClient_def startSession_def make_chan_def)
  moreover have "exitChan (tun stoppedSession) = Chan 1 1"
    by (simp add: t)
  ultimately show ?thesis
    by simp
qed


end
